theory Spec2Isabelle
  imports Main "HOL-Library.AList" "HOL-Library.Sublist" "HOL-Library.Multiset"
begin

section \<open>tap-emarsys: the stream functions of \<^verbatim>\<open>tap_emarsys/streams.py\<close>\<close>

text \<open>
  The development embeds the functions of \<^verbatim>\<open>streams.py\<close> that fetch pages, poll
  metric jobs and keep the resumable metric checkpoint. Every function returns the list of
  effects it performed (API calls, sleeps, sink writes, state writes), in order, together
  with either the exception that ended it or its result.
\<close>

subsection \<open>Dates\<close>

text \<open>
  The text \<^verbatim>\<open>YYYY-MM-DD\<close> of a calendar day is represented by the number of that day,
  counted from 1970-01-01. It is what the code stores in the state and sends to the API.
\<close>

datatype date_string = DateString int

text \<open>
  A pendulum \<^verbatim>\<open>DateTime\<close> is a point in time, in microseconds from
  1970-01-01T00:00:00Z, together with the offset of its zone from UTC, in microseconds. The
  zone is a fixed offset, as it is for every value parsed from an ISO 8601 text; for
  \<^verbatim>\<open>now\<close>, which is in the local zone, it is the offset in force at that moment.
\<close>

record datetime =
  instant :: int
  utc_offset :: int

definition day_length :: int where
  "day_length = 86400000000"

text \<open>
  \<^verbatim>\<open>to_date_string\<close> gives the calendar day of the value in its own zone and drops the
  time of day. \<^verbatim>\<open>pendulum.parse\<close> of the text of a day gives midnight UTC of that day.
  \<^verbatim>\<open>add(days=n)\<close> keeps the zone and the time of day. Two values are compared
  (\<^verbatim>\<open><=\<close>) as points in time, whatever their zones.
\<close>

definition to_date_string :: "datetime \<Rightarrow> date_string" where
  "to_date_string t = DateString ((instant t + utc_offset t) div day_length)"

fun pendulum_parse :: "date_string \<Rightarrow> datetime" where
  "pendulum_parse (DateString d) = \<lparr>instant = d * day_length, utc_offset = 0\<rparr>"

definition add_days :: "datetime \<Rightarrow> int \<Rightarrow> datetime" where
  "add_days t n = t\<lparr>instant := instant t + n * day_length\<rparr>"

text \<open>Midnight UTC of a day, and the last day whose midnight UTC is not after a point in
  time.\<close>

definition midnight :: "int \<Rightarrow> datetime" where
  "midnight d = pendulum_parse (DateString d)"

definition last_day :: "datetime \<Rightarrow> int" where
  "last_day e = instant e div day_length"

text \<open>
  A local variable that holds either a parsed date or the text of one: line 208 of
  \<^verbatim>\<open>sync_metrics\<close> assigns the bookmark's \<^verbatim>\<open>last_metric_date\<close> (a text) to
  \<^verbatim>\<open>start_date\<close> without parsing it.
\<close>

datatype pyval = PDate datetime | PStr date_string

subsection \<open>Exceptions\<close>

datatype error =
    Exception string
  | NameError string
  | TypeError string
  | KeyError string
  | ValueError string
  | UnboundLocalError string
  | RecursionError
  | ParserError string
  | ClientError string

subsection \<open>State, records and effects\<close>

text \<open>
  The \<^verbatim>\<open>metrics\<close> entry of \<^verbatim>\<open>state['bookmarks']\<close>; a key that is absent is
  \<open>None\<close>, and an absent entry reads as the empty one
  (\<^verbatim>\<open>ctx.state.get('bookmarks', {}).get('metrics', {})\<close>).
\<close>

record bookmark =
  campaigns_to_resume :: "string list option"
  metrics_to_resume :: "string list option"
  date_to_resume :: "date_string option"
  last_metric_date :: "date_string option"

definition empty_bookmark :: bookmark where
  "empty_bookmark = \<lparr>campaigns_to_resume = None, metrics_to_resume = None,
     date_to_resume = None, last_metric_date = None\<rparr>"

datatype record_out =
    MetricRow date_string string string
  | MembershipRow string string
  | ContactRow "(string \<times> string option) list"

datatype event =
    ContactQuery nat nat
  | ContactGetData "string list" "string list"
  | ContactListGet string nat nat
  | ResponsesPost string date_string string
  | ResponsesGet string
  | Sleep nat
  | WriteRecords string "record_out list"
  | WriteState bookmark

text \<open>The result of the job's result resource: a JSON string, or an object with or
  without a \<^verbatim>\<open>contact_ids\<close> list.\<close>

datatype poll_data = DStr string | DObj "string list option"

record query_page =
  errors :: "string list"
  result :: "string list"

text \<open>
  The API client (\<^verbatim>\<open>ctx.client\<close>), one function per endpoint the streams use. A call
  either raises (\<open>Inl\<close> the message) or returns the parsed JSON. The responses to the polls
  of one job are indexed by the attempt number, starting at 1. A client is a function of
  the request, so the same request gets the same answer each time it is sent. The job that
  \<^verbatim>\<open>POST /email/responses\<close> creates is represented by its id, a page of the contact
  query by its error list and the ids of its result.
\<close>

record client =
  contact_query :: "nat \<Rightarrow> nat \<Rightarrow> string + query_page"
  contact_getdata :: "string list \<Rightarrow> string list \<Rightarrow> string + (string \<times> string option) list list"
  contactlist_get :: "string \<Rightarrow> nat \<Rightarrow> nat \<Rightarrow> string + string list"
  responses_post :: "string \<Rightarrow> date_string \<Rightarrow> string \<Rightarrow> string + string"
  responses_get :: "string \<Rightarrow> nat \<Rightarrow> string + poll_data"

type_synonym 'a run = "event list \<times> (error + 'a)"

subsection \<open>\<^verbatim>\<open>post_metric\<close> and \<^verbatim>\<open>sync_metric\<close>\<close>

text \<open>
  \<^verbatim>\<open>post_metric\<close> (lines 148 to 157) sends the request that creates the job of a cell.
  Its decorators space the calls by the wall clock (one call in 61 seconds: a call that comes
  sooner sleeps until the period is over) and send the request again for as long as it raises
  \<^verbatim>\<open>RateLimitException\<close>. The wall clock is not part of this development: the
  definition is the call at the moment the request is sent, and an \<open>Inl\<close> answer of the
  client to this request is an exception other than \<^verbatim>\<open>RateLimitException\<close>.
\<close>

definition post_metric :: "client \<Rightarrow> string \<Rightarrow> date_string \<Rightarrow> string \<Rightarrow> string run" where
  "post_metric cl metric date campaign_id =
     ([ResponsesPost metric date campaign_id],
      case responses_post cl metric date campaign_id of
        Inl msg \<Rightarrow> Inl (ClientError msg)
      | Inr job \<Rightarrow> Inr job)"

text \<open>
  The polling loop of \<^verbatim>\<open>sync_metric\<close> (lines 163 to 170). \<open>data\<close> is the local
  variable of that name, \<open>None\<close> while it is unassigned.
\<close>

function poll_loop :: "client \<Rightarrow> string \<Rightarrow> nat \<Rightarrow> poll_data option \<Rightarrow> (poll_data option) run" where
  "poll_loop cl job num_attempts data =
     (if num_attempts < 10 then
        (case responses_get cl job (num_attempts + 1) of
           Inl msg \<Rightarrow> ([ResponsesGet job], Inl (ClientError msg))
         | Inr d \<Rightarrow>
             if d \<noteq> DStr [] then ([ResponsesGet job], Inr (Some d))
             else (case poll_loop cl job (num_attempts + 1) (Some d) of
                     (ev, r) \<Rightarrow> (ResponsesGet job # Sleep 5 # ev, r)))
      else ([], Inr data))"
  by pat_completeness auto
termination
  by (relation "measure (\<lambda>(cl, job, n, data). 10 - n)") auto

declare poll_loop.simps [simp del]

definition write_records :: "string \<Rightarrow> record_out list \<Rightarrow> event list" where
  "write_records tap_stream_id records = [WriteRecords tap_stream_id records]"

definition sync_metric :: "client \<Rightarrow> string \<Rightarrow> string \<Rightarrow> date_string \<Rightarrow> unit run" where
  "sync_metric cl campaign_id metric date =
     (case post_metric cl metric date campaign_id of
        (ev, Inl e) \<Rightarrow> (ev, Inl e)
      | (ev, Inr job) \<Rightarrow>
          (case poll_loop cl job 0 None of
             (ev', Inl e) \<Rightarrow> (ev @ ev', Inl e)
           | (ev', Inr None) \<Rightarrow> (ev @ ev', Inl (UnboundLocalError ''data''))
           | (ev', Inr (Some (DStr s))) \<Rightarrow>
               (ev @ ev', Inl (TypeError ''string indices must be integers''))
           | (ev', Inr (Some (DObj None))) \<Rightarrow> (ev @ ev', Inl (KeyError ''contact_ids''))
           | (ev', Inr (Some (DObj (Some contact_ids)))) \<Rightarrow>
               if length contact_ids = 1 \<and> contact_ids ! 0 = [] then (ev @ ev', Inr ())
               else (ev @ ev' @ write_records ''metrics''
                       (map (\<lambda>contact_id. MetricRow date metric contact_id) contact_ids),
                     Inr ())))"

subsection \<open>\<^verbatim>\<open>write_metrics_state\<close> and \<^verbatim>\<open>sync_metrics\<close>\<close>

text \<open>
  \<^verbatim>\<open>write_metrics_state\<close> stores the three resume fields in the bookmark and writes the
  state out. The lists it stores are the caller's list objects; every state write of
  \<^verbatim>\<open>sync_metrics\<close> comes right after these three assignments, so each snapshot written
  holds the lists as they are at that moment.
\<close>

definition write_metrics_state ::
  "bookmark \<Rightarrow> string list \<Rightarrow> string list \<Rightarrow> datetime \<Rightarrow> bookmark" where
  "write_metrics_state st campaigns_to_resume' metrics_to_resume' date_to_resume' =
     st\<lparr>campaigns_to_resume := Some campaigns_to_resume',
        metrics_to_resume := Some metrics_to_resume',
        date_to_resume := Some (to_date_string date_to_resume')\<rparr>"

text \<open>The \<^verbatim>\<open>while current_date <= end_date\<close> loop (lines 232 to 236), entered with a
  parsed date. The cell is requested for the calendar day of \<open>current_date\<close>.\<close>

function date_loop ::
  "client \<Rightarrow> string \<Rightarrow> string \<Rightarrow> string list \<Rightarrow> string list \<Rightarrow> datetime \<Rightarrow> datetime
     \<Rightarrow> bookmark \<Rightarrow> bookmark run" where
  "date_loop cl campaign_id metric cps mts end_date current_date st =
     (if instant current_date \<le> instant end_date then
        (case sync_metric cl campaign_id metric (to_date_string current_date) of
           (ev, Inl e) \<Rightarrow> (ev, Inl e)
         | (ev, Inr u) \<Rightarrow>
             (case date_loop cl campaign_id metric cps mts end_date (add_days current_date 1)
                     (write_metrics_state st cps mts (add_days current_date 1)) of
                (ev', r) \<Rightarrow>
                  (ev @ WriteState (write_metrics_state st cps mts (add_days current_date 1)) # ev',
                   r)))
      else ([], Inr st))"
  by pat_completeness auto
termination
  by (relation "measure (\<lambda>(cl, c, m, cps, mts, end_date, current_date, st).
        nat (instant end_date - instant current_date + 1))")
     (auto simp: add_days_def day_length_def)

declare date_loop.simps [simp del]

text \<open>
  The loop statement on a value that may be unparsed: comparing a text with a pendulum
  value raises \<^verbatim>\<open>TypeError\<close> at the first test of the condition.
\<close>

definition dates_while ::
  "client \<Rightarrow> string \<Rightarrow> string \<Rightarrow> string list \<Rightarrow> string list \<Rightarrow> datetime \<Rightarrow> pyval \<Rightarrow> bookmark
     \<Rightarrow> bookmark run" where
  "dates_while cl campaign_id metric cps mts end_date current_date st =
     (case current_date of
        PStr s \<Rightarrow> ([], Inl (TypeError ''<= not supported between str and DateTime''))
      | PDate d \<Rightarrow> date_loop cl campaign_id metric cps mts end_date d st)"

text \<open>
  \<^verbatim>\<open>for metric in campaign_metrics\<close> (lines 229 to 238). \<open>mts\<close> is
  \<^verbatim>\<open>metrics_to_resume\<close>; \<^verbatim>\<open>list.remove\<close> deletes the first occurrence and raises
  \<^verbatim>\<open>ValueError\<close> when there is none. The loop returns \<^verbatim>\<open>last_date\<close> with the state,
  since the variable outlives the loop.
\<close>

fun metric_loop ::
  "client \<Rightarrow> string \<Rightarrow> string list \<Rightarrow> datetime \<Rightarrow> pyval \<Rightarrow> string list \<Rightarrow> string list
     \<Rightarrow> datetime option \<Rightarrow> bookmark \<Rightarrow> (datetime option \<times> bookmark) run" where
  "metric_loop cl campaign_id cps end_date start_date [] mts last_date st =
     ([], Inr (last_date, st))"
| "metric_loop cl campaign_id cps end_date start_date (metric # rest) mts last_date st =
     (case dates_while cl campaign_id metric cps mts end_date
             (case last_date of Some d \<Rightarrow> PDate d | None \<Rightarrow> start_date) st of
        (ev, Inl e) \<Rightarrow> (ev, Inl e)
      | (ev, Inr st') \<Rightarrow>
          if metric \<in> set mts then
            (case metric_loop cl campaign_id cps end_date start_date rest (remove1 metric mts)
                    None st' of
               (ev', r) \<Rightarrow> (ev @ ev', r))
          else (ev, Inl (ValueError ''list.remove(x): x not in list'')))"

text \<open>
  \<^verbatim>\<open>for campaign_id in campaign_ids\<close> (lines 227 to 240). \<open>cps\<close> is
  \<^verbatim>\<open>campaigns_to_resume\<close>, \<open>campaign_metrics\<close> is \<open>None\<close> when the bookmark has no
  \<^verbatim>\<open>metrics_to_resume\<close> (iterating \<^verbatim>\<open>None\<close> raises \<^verbatim>\<open>TypeError\<close>).
\<close>

fun campaign_loop ::
  "client \<Rightarrow> string list \<Rightarrow> datetime \<Rightarrow> pyval \<Rightarrow> string list \<Rightarrow> string list
     \<Rightarrow> string list option \<Rightarrow> datetime option \<Rightarrow> bookmark \<Rightarrow> bookmark run" where
  "campaign_loop cl metrics_selected end_date start_date [] cps campaign_metrics last_date st =
     ([], Inr st)"
| "campaign_loop cl metrics_selected end_date start_date (campaign_id # rest) cps
       campaign_metrics last_date st =
     (case campaign_metrics of
        None \<Rightarrow> ([], Inl (TypeError ''NoneType object is not iterable''))
      | Some ms \<Rightarrow>
          (case metric_loop cl campaign_id cps end_date start_date ms metrics_selected
                  last_date st of
             (ev, Inl e) \<Rightarrow> (ev, Inl e)
           | (ev, Inr (last_date', st')) \<Rightarrow>
               if campaign_id \<in> set cps then
                 (case campaign_loop cl metrics_selected end_date start_date rest
                         (remove1 campaign_id cps) (Some metrics_selected) last_date' st' of
                    (ev', r) \<Rightarrow> (ev @ ev', r))
               else (ev, Inl (ValueError ''list.remove(x): x not in list''))))"

text \<open>A campaign as \<^verbatim>\<open>sync_campaigns\<close> returns it: its id and its deletion marker.\<close>

record campaign =
  campaign_id :: string
  deleted :: "string option"

text \<open>
  What \<^verbatim>\<open>sync_metrics\<close> reads from its context. \<^verbatim>\<open>METRICS_AVAILABLE\<close> is defined in
  \<^verbatim>\<open>schemas.py\<close> and is a parameter here. \<open>stream_metadata\<close> is \<open>None\<close> when the
  stream has no metadata, \<open>Some None\<close> when the metadata has no
  \<^verbatim>\<open>tap-emarsys.metrics-selected\<close> entry. The configured dates are given as parsed;
  one that is absent reads as \<^verbatim>\<open>now\<close>, which is the clock at the moment of the call:
  \<open>now_start\<close> at line 205 and \<open>now_end\<close> at line 206.
\<close>

record ctx =
  config_start_date :: "datetime option"
  config_end_date :: "datetime option"
  now_start :: datetime
  now_end :: datetime
  stream_metadata :: "string list option option"
  METRICS_AVAILABLE :: "string list"
  state :: bookmark
  api :: client

definition metrics_selected_of :: "ctx \<Rightarrow> string list" where
  "metrics_selected_of c =
     (case stream_metadata c of
        None \<Rightarrow> METRICS_AVAILABLE c
      | Some None \<Rightarrow> METRICS_AVAILABLE c
      | Some (Some ms) \<Rightarrow> ms)"

text \<open>The values of \<^verbatim>\<open>start_date\<close> and \<^verbatim>\<open>end_date\<close> after lines 205 and
  206.\<close>

definition configured_start_date :: "ctx \<Rightarrow> datetime" where
  "configured_start_date c = (case config_start_date c of Some d \<Rightarrow> d | None \<Rightarrow> now_start c)"

definition end_date_of :: "ctx \<Rightarrow> datetime" where
  "end_date_of c = (case config_end_date c of Some d \<Rightarrow> d | None \<Rightarrow> now_end c)"

text \<open>The value of \<^verbatim>\<open>start_date\<close> after line 208: the text of the bookmark, as it
  is, when the bookmark has a \<^verbatim>\<open>last_metric_date\<close>.\<close>

definition start_date_of :: "ctx \<Rightarrow> pyval" where
  "start_date_of c =
     (case last_metric_date (state c) of
        Some s \<Rightarrow> PStr s
      | None \<Rightarrow> PDate (configured_start_date c))"

text \<open>Python truth of an optional list: \<^verbatim>\<open>None\<close> and the empty list are false.\<close>

fun truthy :: "'a list option \<Rightarrow> bool" where
  "truthy None = False"
| "truthy (Some xs) = (xs \<noteq> [])"

text \<open>Lines 210 to 224: the work to start from, as
  \<open>(campaign_ids, campaign_metrics, last_date)\<close>.\<close>

definition resume_or_start ::
  "ctx \<Rightarrow> campaign list \<Rightarrow> string list \<times> string list option \<times> datetime option" where
  "resume_or_start c campaigns =
     (if truthy (campaigns_to_resume (state c)) then
        (the (campaigns_to_resume (state c)),
         metrics_to_resume (state c),
         map_option pendulum_parse (date_to_resume (state c)))
      else
        (map campaign_id (filter (\<lambda>x. deleted x = None) campaigns),
         Some (metrics_selected_of c),
         None))"

text \<open>Lines 226 to 240: the three nested loops.\<close>

definition sync_metrics_loops :: "ctx \<Rightarrow> campaign list \<Rightarrow> bookmark run" where
  "sync_metrics_loops c campaigns =
     (case resume_or_start c campaigns of
        (campaign_ids, campaign_metrics, last_date) \<Rightarrow>
          campaign_loop (api c) (metrics_selected_of c) (end_date_of c) (start_date_of c)
            campaign_ids campaign_ids campaign_metrics last_date (state c))"

text \<open>
  The names bound in the module \<^verbatim>\<open>streams.py\<close>: its imports (lines 1 to 18), its
  logger and its functions. A call of a name that is neither bound here nor a builtin
  raises \<^verbatim>\<open>NameError\<close>.
\<close>

definition module_globals :: "string list" where
  "module_globals =
     [''time'', ''partial'', ''singer'', ''pendulum'', ''requests'', ''metadata'',
      ''write_bookmark'', ''clear_bookmark'', ''limits'', ''sleep_and_retry'',
      ''RateLimitException'', ''on_exception'', ''expo'', ''IDS'', ''get_contacts_raw_fields'',
      ''get_contact_field_type'', ''normalize_fieldname'', ''METRICS_AVAILABLE'', ''LOGGER'',
      ''metrics'', ''write_records'', ''base_transform'', ''sync_campaigns'',
      ''transform_contact'', ''paginate_contacts'', ''sync_contacts'', ''sync_contact_lists'',
      ''sync_contact_list_memberships'', ''sync_contact_lists_memberships'', ''post_metric'',
      ''sync_metric'', ''write_metrics_state'', ''sync_metrics'', ''sync_selected_streams'']"

text \<open>\<^verbatim>\<open>reset_stream\<close> of the singer library empties the stream's bookmark.\<close>

definition reset_stream :: "bookmark \<Rightarrow> bookmark" where
  "reset_stream st = empty_bookmark"

text \<open>Lines 242 to 244, after the loops.\<close>

definition finish_metrics :: "ctx \<Rightarrow> bookmark \<Rightarrow> bookmark run" where
  "finish_metrics c st =
     (if ''reset_stream'' \<notin> set module_globals then ([], Inl (NameError ''reset_stream''))
      else
        (let st' = (reset_stream st)\<lparr>last_metric_date := Some (to_date_string (end_date_of c))\<rparr>
         in ([WriteState st'], Inr st')))"

definition sync_metrics :: "ctx \<Rightarrow> campaign list \<Rightarrow> bookmark run" where
  "sync_metrics c campaigns =
     (case sync_metrics_loops c campaigns of
        (ev, Inl e) \<Rightarrow> (ev, Inl e)
      | (ev, Inr st) \<Rightarrow> (case finish_metrics c st of (ev', r) \<Rightarrow> (ev @ ev', r)))"

subsection \<open>Contacts: \<^verbatim>\<open>transform_contact\<close>, \<^verbatim>\<open>paginate_contacts\<close>, \<^verbatim>\<open>sync_contacts\<close>\<close>

record field_info =
  fi_type :: string
  fi_name :: string
  fi_id :: string

text \<open>
  A contact is a dictionary from field ids to values, kept as an association list in
  insertion order; a value is a string or null. \<open>parse_iso\<close> stands for
  \<^verbatim>\<open>pendulum.parse(value).isoformat()\<close>, \<open>None\<close> where the parser raises.
\<close>

fun transform_fields ::
  "(string \<Rightarrow> string option) \<Rightarrow> (string \<rightharpoonup> field_info) \<Rightarrow> (string \<times> string option) list
     \<Rightarrow> (string \<times> string option) list \<Rightarrow> error + (string \<times> string option) list" where
  "transform_fields parse_iso field_id_map [] new_obj = Inr new_obj"
| "transform_fields parse_iso field_id_map ((field_id, value) # rest) new_obj =
     (if field_id \<in> set [''id'', ''uid''] then
        transform_fields parse_iso field_id_map rest (AList.update field_id value new_obj)
      else
        (case field_id_map field_id of
           None \<Rightarrow> Inl (KeyError field_id)
         | Some info \<Rightarrow>
             if value = Some [] then
               transform_fields parse_iso field_id_map rest (AList.update (fi_name info) None new_obj)
             else if fi_type info = ''date'' then
               (case value of
                  None \<Rightarrow> Inl (TypeError ''cannot parse None'')
                | Some v \<Rightarrow>
                    (case parse_iso v of
                       None \<Rightarrow> Inl (ParserError v)
                     | Some t \<Rightarrow>
                         transform_fields parse_iso field_id_map rest
                           (AList.update (fi_name info) (Some t) new_obj)))
             else transform_fields parse_iso field_id_map rest
                    (AList.update (fi_name info) value new_obj)))"

definition transform_contact ::
  "(string \<Rightarrow> string option) \<Rightarrow> (string \<rightharpoonup> field_info) \<Rightarrow> (string \<times> string option) list
     \<Rightarrow> error + (string \<times> string option) list" where
  "transform_contact parse_iso field_id_map contact = transform_fields parse_iso field_id_map contact []"

text \<open>\<^verbatim>\<open>list(map(f, xs))\<close> for an \<open>f\<close> that may raise: the first exception ends it.\<close>

fun map_raising :: "('a \<Rightarrow> error + 'b) \<Rightarrow> 'a list \<Rightarrow> error + 'b list" where
  "map_raising f [] = Inr []"
| "map_raising f (x # xs) =
     (case f x of
        Inl e \<Rightarrow> Inl e
      | Inr y \<Rightarrow> (case map_raising f xs of Inl e \<Rightarrow> Inl e | Inr ys \<Rightarrow> Inr (y # ys)))"

fun join :: "string \<Rightarrow> string list \<Rightarrow> string" where
  "join sep [] = []"
| "join sep [x] = x"
| "join sep (x # y # ys) = x @ sep @ join sep (y # ys)"

text \<open>
  \<^verbatim>\<open>paginate_contacts\<close> calls itself for the next page. The first argument is the number
  of nested calls the interpreter's stack still allows; at 0 the call raises
  \<^verbatim>\<open>RecursionError\<close>. The page of the query is modelled by the list of its ids
  (\<^verbatim>\<open>x['id']\<close> for each entry of \<^verbatim>\<open>result\<close>).
\<close>

fun paginate_contacts ::
  "nat \<Rightarrow> client \<Rightarrow> (string \<Rightarrow> string option) \<Rightarrow> (string \<rightharpoonup> field_info) \<Rightarrow> field_info list
     \<Rightarrow> nat \<Rightarrow> nat \<Rightarrow> unit run" where
  "paginate_contacts 0 cl parse_iso field_id_map selected_fields limit offset =
     ([], Inl RecursionError)"
| "paginate_contacts (Suc depth) cl parse_iso field_id_map selected_fields limit offset =
     (case contact_query cl limit offset of
        Inl msg \<Rightarrow> ([ContactQuery limit offset], Inl (ClientError msg))
      | Inr contact_list_page \<Rightarrow>
          if length (errors contact_list_page) > 0 then
            ([ContactQuery limit offset],
             Inl (Exception (''contacts - '' @ join '','' (errors contact_list_page))))
          else
            (case contact_getdata cl (result contact_list_page) (map fi_id selected_fields) of
               Inl msg \<Rightarrow>
                 ([ContactQuery limit offset,
                   ContactGetData (result contact_list_page) (map fi_id selected_fields)],
                  Inl (ClientError msg))
             | Inr contact_page \<Rightarrow>
                 (case map_raising (transform_contact parse_iso field_id_map) contact_page of
                    Inl e \<Rightarrow>
                      ([ContactQuery limit offset,
                        ContactGetData (result contact_list_page) (map fi_id selected_fields)],
                       Inl e)
                  | Inr contacts \<Rightarrow>
                      if length contact_page = limit then
                        (case paginate_contacts depth cl parse_iso field_id_map selected_fields limit
                                (offset + limit) of
                           (ev, r) \<Rightarrow>
                             ([ContactQuery limit offset,
                               ContactGetData (result contact_list_page)
                                 (map fi_id selected_fields)]
                              @ write_records ''contacts'' (map ContactRow contacts) @ ev, r))
                      else
                        ([ContactQuery limit offset,
                          ContactGetData (result contact_list_page) (map fi_id selected_fields)]
                         @ write_records ''contacts'' (map ContactRow contacts), Inr ()))))"

text \<open>A raw field as \<^verbatim>\<open>get_contacts_raw_fields\<close> returns it; \<open>rf_id\<close> is
  \<^verbatim>\<open>str(raw_field['id'])\<close>.\<close>

record raw_field =
  rf_id :: string
  rf_name :: string
  rf_application_type :: string

text \<open>
  Lines 92 to 103: the two dictionaries, by normalized name and by id; a later raw field
  replaces an earlier one under the same key. \<^verbatim>\<open>normalize_fieldname\<close> is defined in
  \<^verbatim>\<open>schemas.py\<close> and is a parameter here.
\<close>

fun field_maps ::
  "(string \<Rightarrow> string) \<Rightarrow> raw_field list \<Rightarrow> (string \<rightharpoonup> field_info) \<times> (string \<rightharpoonup> field_info)
     \<Rightarrow> (string \<rightharpoonup> field_info) \<times> (string \<rightharpoonup> field_info)" where
  "field_maps normalize_fieldname [] (field_name_map, field_id_map) =
     (field_name_map, field_id_map)"
| "field_maps normalize_fieldname (raw # rest) (field_name_map, field_id_map) =
     (let info = \<lparr>fi_type = rf_application_type raw,
                  fi_name = normalize_fieldname (rf_name raw),
                  fi_id = rf_id raw\<rparr>
      in field_maps normalize_fieldname rest
           (field_name_map(normalize_fieldname (rf_name raw) \<mapsto> info),
            field_id_map(rf_id raw \<mapsto> info)))"

definition field_unavailable :: "string \<Rightarrow> string" where
  "field_unavailable prop = ''Field `'' @ prop @ ''` not currently available from Emarsys''"

text \<open>
  Lines 106 to 112: the schema's properties in the dictionary's order, each with its
  \<^verbatim>\<open>selected\<close> flag (\<open>None\<close> when the schema has none).
\<close>

fun select_fields ::
  "(string \<rightharpoonup> field_info) \<Rightarrow> (string \<times> bool option) list \<Rightarrow> field_info list
     \<Rightarrow> error + field_info list" where
  "select_fields field_name_map [] selected_fields = Inr selected_fields"
| "select_fields field_name_map ((prop, selected) # rest) selected_fields =
     (if selected = Some True then
        (case field_name_map prop of
           None \<Rightarrow> Inl (Exception (field_unavailable prop))
         | Some info \<Rightarrow> select_fields field_name_map rest (selected_fields @ [info]))
      else select_fields field_name_map rest selected_fields)"

definition sync_contacts ::
  "nat \<Rightarrow> client \<Rightarrow> (string \<Rightarrow> string option) \<Rightarrow> (string \<Rightarrow> string) \<Rightarrow> raw_field list
     \<Rightarrow> (string \<times> bool option) list \<Rightarrow> unit run" where
  "sync_contacts depth cl parse_iso normalize_fieldname raw_fields properties =
     (case field_maps normalize_fieldname raw_fields (Map.empty, Map.empty) of
        (field_name_map, field_id_map) \<Rightarrow>
          (case select_fields field_name_map properties [] of
             Inl e \<Rightarrow> ([], Inl e)
           | Inr selected_fields \<Rightarrow>
               paginate_contacts depth cl parse_iso field_id_map selected_fields 1000 0))"

subsection \<open>\<^verbatim>\<open>sync_contact_list_memberships\<close>\<close>

fun sync_contact_list_memberships :: "nat \<Rightarrow> client \<Rightarrow> string \<Rightarrow> nat \<Rightarrow> nat \<Rightarrow> unit run" where
  "sync_contact_list_memberships 0 cl contact_list_id limit offset = ([], Inl RecursionError)"
| "sync_contact_list_memberships (Suc depth) cl contact_list_id limit offset =
     (case contactlist_get cl contact_list_id limit offset of
        Inl msg \<Rightarrow> ([ContactListGet contact_list_id limit offset], Inl (ClientError msg))
      | Inr membership_ids \<Rightarrow>
          if length membership_ids = limit then
            (case sync_contact_list_memberships depth cl contact_list_id limit (offset + limit) of
               (ev, r) \<Rightarrow>
                 (ContactListGet contact_list_id limit offset
                  # write_records ''contact_list_memberships''
                      (map (MembershipRow contact_list_id) membership_ids) @ ev, r))
          else
            (ContactListGet contact_list_id limit offset
             # write_records ''contact_list_memberships''
                 (map (MembershipRow contact_list_id) membership_ids), Inr ()))"

subsection \<open>Reading a trace\<close>

text \<open>The batches written to a stream, the sync cells started (one
  \<^verbatim>\<open>POST /email/responses\<close> each) and the checkpoints written.\<close>

fun batches :: "string \<Rightarrow> event list \<Rightarrow> record_out list list" where
  "batches sid [] = []"
| "batches sid (WriteRecords sid' rs # es) =
     (if sid' = sid then rs # batches sid es else batches sid es)"
| "batches sid (e # es) = batches sid es"

fun cells :: "event list \<Rightarrow> (string \<times> string \<times> date_string) list" where
  "cells [] = []"
| "cells (ResponsesPost metric date cid # es) = (cid, metric, date) # cells es"
| "cells (e # es) = cells es"

fun is_checkpoint :: "event \<Rightarrow> bool" where
  "is_checkpoint (WriteState st) = True"
| "is_checkpoint e = False"

fun checkpoints :: "event list \<Rightarrow> bookmark list" where
  "checkpoints [] = []"
| "checkpoints (WriteState st # es) = st # checkpoints es"
| "checkpoints (e # es) = checkpoints es"

fun is_poll :: "event \<Rightarrow> bool" where
  "is_poll (ResponsesGet job) = True"
| "is_poll e = False"

text \<open>Polls and sleeps, the events of the polling loop.\<close>

fun is_wait :: "event \<Rightarrow> bool" where
  "is_wait (ResponsesGet job) = True"
| "is_wait (Sleep n) = True"
| "is_wait e = False"

subsection \<open>Example inputs\<close>

text \<open>A client whose job results answer the \<open>n\<close>-th poll with \<open>answers n\<close>; its pages
  are empty.\<close>

definition job_client :: "(nat \<Rightarrow> poll_data) \<Rightarrow> client" where
  "job_client answers =
     \<lparr>contact_query = (\<lambda>limit offset. Inr \<lparr>errors = [], result = []\<rparr>),
      contact_getdata = (\<lambda>key_values fields. Inr []),
      contactlist_get = (\<lambda>contact_list_id limit offset. Inr []),
      responses_post = (\<lambda>metric date cid. Inr ''job''),
      responses_get = (\<lambda>job n. Inr (answers n))\<rparr>"

definition never_ready :: "nat \<Rightarrow> poll_data" where
  "never_ready n = DStr []"

definition ready_at_third :: "nat \<Rightarrow> poll_data" where
  "ready_at_third n = (if n < 3 then DStr [] else DObj (Some [''17'', ''23'']))"

definition zero_matches :: "nat \<Rightarrow> poll_data" where
  "zero_matches n = DObj (Some [[]])"

definition one_match :: "nat \<Rightarrow> poll_data" where
  "one_match n = DObj (Some [''17''])"

text \<open>The day 2021-03-02 and its neighbours, in days from 1970-01-01.\<close>

definition day_2021_03_01 :: int where "day_2021_03_01 = 18687"
definition day_2021_03_02 :: int where "day_2021_03_02 = 18688"
definition day_2021_03_03 :: int where "day_2021_03_03 = 18689"

text \<open>A context with no state: the configured dates are \<^verbatim>\<open>2021-03-01\<close> and
  \<^verbatim>\<open>2021-03-02\<close>.\<close>

definition fresh_ctx :: ctx where
  "fresh_ctx =
     \<lparr>config_start_date = Some (pendulum_parse (DateString day_2021_03_01)),
      config_end_date = Some (pendulum_parse (DateString day_2021_03_02)),
      now_start = pendulum_parse (DateString day_2021_03_03),
      now_end = pendulum_parse (DateString day_2021_03_03),
      stream_metadata = None, METRICS_AVAILABLE = [''open'', ''click''],
      state = empty_bookmark, api = job_client one_match\<rparr>"

definition campaign_1 :: campaign where
  "campaign_1 = \<lparr>campaign_id = ''1'', deleted = None\<rparr>"

definition campaign_2 :: campaign where
  "campaign_2 = \<lparr>campaign_id = ''2'', deleted = Some ''2020-01-01''\<rparr>"

text \<open>
  A server that holds a collection of contacts (their ids, and the fields of each) and the
  members of each contact list, and serves them in pages: the page at \<open>limit\<close> and
  \<open>offset\<close> is \<open>take limit (drop offset collection)\<close>, and the data of a page of ids
  is one contact per id.
\<close>

definition paged_client ::
  "string list \<Rightarrow> (string \<Rightarrow> (string \<times> string option) list) \<Rightarrow> (string \<Rightarrow> string list) \<Rightarrow> client" where
  "paged_client ids fields_of members =
     \<lparr>contact_query = (\<lambda>limit offset. Inr \<lparr>errors = [], result = take limit (drop offset ids)\<rparr>),
      contact_getdata = (\<lambda>key_values fields. Inr (map (\<lambda>k. (''id'', Some k) # fields_of k) key_values)),
      contactlist_get = (\<lambda>contact_list_id limit offset.
         Inr (take limit (drop offset (members contact_list_id)))),
      responses_post = (\<lambda>metric date cid. Inr ''job''),
      responses_get = (\<lambda>job n. Inr (DObj (Some [])))\<rparr>"

definition raw_email :: raw_field where
  "raw_email = \<lparr>rf_id = ''3'', rf_name = ''email'', rf_application_type = ''longtext''\<rparr>"

definition raw_birth :: raw_field where
  "raw_birth = \<lparr>rf_id = ''4'', rf_name = ''birth'', rf_application_type = ''date''\<rparr>"

definition no_fields :: "string \<Rightarrow> (string \<times> string option) list" where
  "no_fields k = []"

definition two_members :: "string \<Rightarrow> string list" where
  "two_members contact_list_id = [''a'', ''b'']"

definition no_iso :: "string \<Rightarrow> string option" where
  "no_iso v = None"

text \<open>The number of pages that hold \<open>N\<close> records at \<open>L\<close> records a page, rounded up.\<close>

definition ceil_div :: "nat \<Rightarrow> nat \<Rightarrow> nat" where
  "ceil_div N L = (N + L - 1) div L"

text \<open>A state that holds the checkpoint of campaign 5, metric click, date 2021-03-02, and a
  context that restarts from it.\<close>

definition checkpoint_5_click :: bookmark where
  "checkpoint_5_click =
     \<lparr>campaigns_to_resume = Some [''5''], metrics_to_resume = Some [''click''],
      date_to_resume = Some (DateString day_2021_03_02), last_metric_date = None\<rparr>"

definition restart_ctx :: ctx where
  "restart_ctx =
     fresh_ctx\<lparr>config_end_date := Some (pendulum_parse (DateString day_2021_03_03)),
       state := checkpoint_5_click\<rparr>"

text \<open>A restart with three selected metrics, two of them left for campaign 5.\<close>

definition resumed_ctx :: ctx where
  "resumed_ctx =
     fresh_ctx\<lparr>stream_metadata := Some (Some [''open'', ''click'', ''bounce'']),
       state := \<lparr>campaigns_to_resume = Some [''5''],
                 metrics_to_resume = Some [''click'', ''bounce''],
                 date_to_resume = Some (DateString day_2021_03_02),
                 last_metric_date = None\<rparr>\<rparr>"

text \<open>A fresh start after a completed pass: \<^verbatim>\<open>last_metric_date\<close> is 2021-03-01, the
  configured start is 2021-03-02 and the end is 2021-03-03.\<close>

definition bookmarked_ctx :: ctx where
  "bookmarked_ctx =
     fresh_ctx\<lparr>config_start_date := Some (pendulum_parse (DateString day_2021_03_02)),
       config_end_date := Some (pendulum_parse (DateString day_2021_03_03)),
       state := empty_bookmark\<lparr>last_metric_date := Some (DateString day_2021_03_01)\<rparr>\<rparr>"

subsection \<open>The order of record writes and checkpoints\<close>

text \<open>
  A check on a whole trace, read from left to right. \<open>cur\<close> is the open cell: the one whose job
  request has been sent and whose checkpoint has not been written yet. A write of records is
  accepted only while a cell is open, and only with rows of that cell's date and metric; a
  state write is accepted only while a cell is open, it must name that cell's campaign first
  and the day after that cell's date, and it closes the cell. So no records are written
  between a checkpoint and the next job request, and no checkpoint is written with no job
  request before it. The check does not look at the answers of the API.
\<close>

fun row_of :: "date_string \<Rightarrow> string \<Rightarrow> record_out \<Rightarrow> bool" where
  "row_of date metric (MetricRow d m contact_id) = (d = date \<and> m = metric)"
| "row_of date metric r = False"

fun flush_then_checkpoint ::
  "(string \<times> string \<times> date_string) option \<Rightarrow> event list \<Rightarrow> bool" where
  "flush_then_checkpoint cur [] = True"
| "flush_then_checkpoint cur (ResponsesPost metric date cid # es) =
     flush_then_checkpoint (Some (cid, metric, date)) es"
| "flush_then_checkpoint cur (WriteRecords sid rows # es) =
     (case cur of
        None \<Rightarrow> False
      | Some (cid, metric, date) \<Rightarrow>
          sid = ''metrics'' \<and> list_all (row_of date metric) rows \<and> flush_then_checkpoint cur es)"
| "flush_then_checkpoint cur (WriteState K # es) =
     (case cur of
        None \<Rightarrow> False
      | Some (cid, metric, date) \<Rightarrow>
          date_to_resume K = Some (to_date_string (add_days (pendulum_parse date) 1))
          \<and> (case campaigns_to_resume K of Some (c # cs) \<Rightarrow> c = cid | _ \<Rightarrow> False)
          \<and> flush_then_checkpoint None es)"
| "flush_then_checkpoint cur (e # es) = flush_then_checkpoint cur es"


subsection \<open>Restarting from a checkpoint\<close>

text \<open>
  \<open>reach c campaigns P K\<close>: the checkpoint \<open>K\<close> was written by a run of
  \<^verbatim>\<open>sync_metrics\<close> that started from the state of \<open>c\<close>, or by a run restarted from
  a checkpoint reached before, any number of times; \<open>P\<close> holds the events of those runs
  that came before the checkpoints they were restarted from, and before \<open>K\<close>. A restart
  keeps the configuration and the API of \<open>c\<close>; the campaigns passed to it may differ.
\<close>

inductive reach :: "ctx \<Rightarrow> campaign list \<Rightarrow> event list \<Rightarrow> bookmark \<Rightarrow> bool"
  for c :: ctx and campaigns :: "campaign list" where
  first:
    "fst (sync_metrics c campaigns) = pre @ WriteState K # post \<Longrightarrow> reach c campaigns pre K"
| again:
    "reach c campaigns P K
     \<Longrightarrow> fst (sync_metrics (c\<lparr>state := K\<rparr>) campaigns') = pre @ WriteState K' # post
     \<Longrightarrow> reach c campaigns (P @ pre) K'"

text \<open>The metric records of a trace, and those of one cell.\<close>

definition metric_rows :: "event list \<Rightarrow> record_out list" where
  "metric_rows T = concat (batches ''metrics'' T)"

definition cell_rows :: "client \<Rightarrow> string \<times> string \<times> date_string \<Rightarrow> record_out list" where
  "cell_rows cl cell =
     (case cell of (cid, metric, date) \<Rightarrow> metric_rows (fst (sync_metric cl cid metric date)))"

text \<open>Sets of cells used in the proofs: a cross product with the days from \<open>d\<close> to
  \<open>e\<close>; the cells a metric loop has to do when its first metric starts at day \<open>d\<close>
  and the others at day \<open>s\<close>; the same for a campaign loop.\<close>

definition cross ::
  "string list \<Rightarrow> string list \<Rightarrow> int \<Rightarrow> int \<Rightarrow> (string \<times> string \<times> date_string) set" where
  "cross cs ms d e = {(c, m, DateString x) | c m x. c \<in> set cs \<and> m \<in> set ms \<and> d \<le> x \<and> x \<le> e}"

definition mwork ::
  "int \<Rightarrow> int \<Rightarrow> string \<Rightarrow> string list \<Rightarrow> int \<Rightarrow> (string \<times> string \<times> date_string) set" where
  "mwork s e c ms d =
     (case ms of [] \<Rightarrow> {} | m # rest \<Rightarrow> cross [c] [m] d e \<union> cross [c] rest s e)"

definition cwork ::
  "string list \<Rightarrow> int \<Rightarrow> int \<Rightarrow> string list \<Rightarrow> string list \<Rightarrow> int
     \<Rightarrow> (string \<times> string \<times> date_string) set" where
  "cwork full s e cs ms d =
     (case cs of [] \<Rightarrow> {} | c # rest \<Rightarrow> mwork s e c ms d \<union> cross rest full s e)"

definition cells_ok :: "client \<Rightarrow> (string \<times> string \<times> date_string) set \<Rightarrow> bool" where
  "cells_ok cl S = (\<forall>cell\<in>S. snd (sync_metric cl (fst cell) (fst (snd cell)) (snd (snd cell))) = Inr ())"

definition rows_by_cells :: "client \<Rightarrow> event list \<Rightarrow> bool" where
  "rows_by_cells cl T = (set (metric_rows T) = (\<Union>cell\<in>set (cells T). set (cell_rows cl cell)))"

text \<open>\<open>first_day s ld fd\<close>: a metric loop entered with \<^verbatim>\<open>last_date\<close> \<open>ld\<close> and the
  start date midnight UTC of day \<open>s\<close> begins its first metric at midnight UTC of day
  \<open>fd\<close>.\<close>

definition first_day :: "int \<Rightarrow> datetime option \<Rightarrow> int \<Rightarrow> bool" where
  "first_day s ld fd = (case ld of None \<Rightarrow> fd = s | Some t \<Rightarrow> t = midnight fd)"

text \<open>The first checkpoint of the run of \<open>fresh_ctx\<close> with campaign 1, and the events
  before it.\<close>

definition first_checkpoint :: bookmark where
  "first_checkpoint =
     \<lparr>campaigns_to_resume = Some [''1''], metrics_to_resume = Some [''open'', ''click''],
      date_to_resume = Some (DateString day_2021_03_02), last_metric_date = None\<rparr>"

definition before_first_checkpoint :: "event list" where
  "before_first_checkpoint =
     [ResponsesPost ''open'' (DateString day_2021_03_01) ''1'', ResponsesGet ''job'',
      WriteRecords ''metrics'' [MetricRow (DateString day_2021_03_01) ''open'' ''17'']]"

text \<open>A second interruption: the third checkpoint of the same run and the events before
  it; then the only checkpoint of the run restarted from there, and the events before
  that one.\<close>

definition third_checkpoint :: bookmark where
  "third_checkpoint =
     \<lparr>campaigns_to_resume = Some [''1''], metrics_to_resume = Some [''click''],
      date_to_resume = Some (DateString day_2021_03_02), last_metric_date = None\<rparr>"

definition before_third_checkpoint :: "event list" where
  "before_third_checkpoint =
     [ResponsesPost ''open'' (DateString day_2021_03_01) ''1'', ResponsesGet ''job'',
      WriteRecords ''metrics'' [MetricRow (DateString day_2021_03_01) ''open'' ''17''],
      WriteState first_checkpoint,
      ResponsesPost ''open'' (DateString day_2021_03_02) ''1'', ResponsesGet ''job'',
      WriteRecords ''metrics'' [MetricRow (DateString day_2021_03_02) ''open'' ''17''],
      WriteState (first_checkpoint\<lparr>date_to_resume := Some (DateString day_2021_03_03)\<rparr>),
      ResponsesPost ''click'' (DateString day_2021_03_01) ''1'', ResponsesGet ''job'',
      WriteRecords ''metrics'' [MetricRow (DateString day_2021_03_01) ''click'' ''17'']]"

definition restarted_checkpoint :: bookmark where
  "restarted_checkpoint =
     \<lparr>campaigns_to_resume = Some [''1''], metrics_to_resume = Some [''open'', ''click''],
      date_to_resume = Some (DateString day_2021_03_03), last_metric_date = None\<rparr>"

definition before_restarted_checkpoint :: "event list" where
  "before_restarted_checkpoint =
     [ResponsesPost ''click'' (DateString day_2021_03_02) ''1'', ResponsesGet ''job'',
      WriteRecords ''metrics'' [MetricRow (DateString day_2021_03_02) ''click'' ''17'']]"

text \<open>The second checkpoint of the run of \<open>resumed_ctx\<close>, written after the first cell of
  the metric bounce, and the events before it.\<close>

definition bounce_checkpoint :: bookmark where
  "bounce_checkpoint =
     \<lparr>campaigns_to_resume = Some [''5''], metrics_to_resume = Some [''open'', ''bounce''],
      date_to_resume = Some (DateString day_2021_03_02), last_metric_date = None\<rparr>"

definition before_bounce_checkpoint :: "event list" where
  "before_bounce_checkpoint =
     [ResponsesPost ''click'' (DateString day_2021_03_02) ''5'', ResponsesGet ''job'',
      WriteRecords ''metrics'' [MetricRow (DateString day_2021_03_02) ''click'' ''17''],
      WriteState \<lparr>campaigns_to_resume = Some [''5''],
                   metrics_to_resume = Some [''open'', ''click'', ''bounce''],
                   date_to_resume = Some (DateString day_2021_03_03), last_metric_date = None\<rparr>,
      ResponsesPost ''bounce'' (DateString day_2021_03_01) ''5'', ResponsesGet ''job'',
      WriteRecords ''metrics'' [MetricRow (DateString day_2021_03_01) ''bounce'' ''17'']]"

text \<open>A start date with a time of day: \<^verbatim>\<open>2021-03-01T12:00:00Z\<close>, with the end date
  \<^verbatim>\<open>2021-03-02\<close> of \<open>fresh_ctx\<close>.\<close>

definition noon_ctx :: ctx where
  "noon_ctx =
     fresh_ctx\<lparr>config_start_date :=
       Some \<lparr>instant = day_2021_03_01 * day_length + 43200000000, utc_offset = 0\<rparr>\<rparr>"

text \<open>A start date east of UTC, \<^verbatim>\<open>2021-03-01T00:00:00+02:00\<close>, with the end date
  \<^verbatim>\<open>2021-03-02T23:00:00Z\<close>; the second checkpoint of its run with campaign 1, and
  the events before that checkpoint.\<close>

definition east_ctx :: ctx where
  "east_ctx =
     fresh_ctx\<lparr>config_start_date :=
         Some \<lparr>instant = day_2021_03_01 * day_length - 7200000000, utc_offset = 7200000000\<rparr>,
       config_end_date :=
         Some \<lparr>instant = day_2021_03_02 * day_length + 82800000000, utc_offset = 0\<rparr>\<rparr>"

definition second_checkpoint :: bookmark where
  "second_checkpoint = first_checkpoint\<lparr>date_to_resume := Some (DateString day_2021_03_03)\<rparr>"

definition before_second_checkpoint :: "event list" where
  "before_second_checkpoint =
     before_first_checkpoint
     @ [WriteState first_checkpoint,
        ResponsesPost ''open'' (DateString day_2021_03_02) ''1'', ResponsesGet ''job'',
        WriteRecords ''metrics'' [MetricRow (DateString day_2021_03_02) ''open'' ''17'']]"

section \<open>Properties\<close>

subsection \<open>Polling\<close>

lemma single_empty_iff: "(length xs = Suc 0 \<and> xs ! 0 = []) = (xs = [[]])"
  by (cases xs) auto

lemma poll_loop_ready:
  assumes "n < k" "k \<le> 10"
      and "\<forall>i. n < i \<and> i < k \<longrightarrow> responses_get cl job i = Inr (DStr [])"
      and "responses_get cl job k = Inr d" "d \<noteq> DStr []"
  shows "poll_loop cl job n data =
           (concat (replicate (k - 1 - n) [ResponsesGet job, Sleep 5]) @ [ResponsesGet job],
            Inr (Some d))"
  using assms
proof (induction cl job n data rule: poll_loop.induct)
  case (1 cl job n data)
  have n10: "n < 10" using 1 by simp
  show ?case
  proof (cases "Suc n = k")
    case True
    with 1 n10 show ?thesis by (simp add: poll_loop.simps[of cl job n data])
  next
    case False
    with 1 have lt: "Suc n < k" by simp
    then have emp: "responses_get cl job (Suc n) = Inr (DStr [])" using 1 by simp
    have "poll_loop cl job (Suc n) (Some (DStr [])) =
           (concat (replicate (k - 1 - Suc n) [ResponsesGet job, Sleep 5]) @ [ResponsesGet job],
            Inr (Some d))"
      using "1.IH"[of "DStr []"] 1 lt emp by simp
    moreover have "k - 1 - n = Suc (k - 1 - Suc n)" using lt by simp
    ultimately show ?thesis using emp n10
      by (simp add: poll_loop.simps[of cl job n data])
  qed
qed

lemma poll_loop_exhausted:
  assumes "n \<le> 10"
      and "\<forall>i. n < i \<and> i \<le> 10 \<longrightarrow> responses_get cl job i = Inr (DStr [])"
  shows "poll_loop cl job n data =
           (concat (replicate (10 - n) [ResponsesGet job, Sleep 5]),
            Inr (if n < 10 then Some (DStr []) else data))"
  using assms
proof (induction cl job n data rule: poll_loop.induct)
  case (1 cl job n data)
  show ?case
  proof (cases "n < 10")
    case False
    then show ?thesis by (simp add: poll_loop.simps[of cl job n data])
  next
    case True
    then have emp: "responses_get cl job (Suc n) = Inr (DStr [])" using 1 by simp
    have ih: "poll_loop cl job (Suc n) (Some (DStr [])) =
           (concat (replicate (10 - Suc n) [ResponsesGet job, Sleep 5]), Inr (Some (DStr [])))"
      using "1.IH"[of "DStr []"] 1 True emp by simp
    have "10 - n = Suc (10 - Suc n)" using True by simp
    then show ?thesis using ih emp True
      by (simp add: poll_loop.simps[of cl job n data])
  qed
qed

lemma poll_loop_count:
  "length (filter is_poll (fst (poll_loop cl job n data))) \<le> 10 - n"
proof (induction cl job n data rule: poll_loop.induct)
  case (1 cl job n data)
  show ?case
  proof (cases "n < 10")
    case False
    then show ?thesis by (simp add: poll_loop.simps[of cl job n data])
  next
    case True
    show ?thesis
    proof (cases "responses_get cl job (Suc n)")
      case (Inl msg)
      then show ?thesis using True by (simp add: poll_loop.simps[of cl job n data])
    next
      case (Inr d)
      show ?thesis
      proof (cases "d = DStr []")
        case False
        then show ?thesis using True Inr by (simp add: poll_loop.simps[of cl job n data])
      next
        case e: True
        have "length (filter is_poll (fst (poll_loop cl job (Suc n) (Some d)))) \<le> 10 - Suc n"
          using "1.IH"[of d] True Inr e by simp
        then show ?thesis using True Inr e
          by (simp add: poll_loop.simps[of cl job n data] case_prod_beta)
      qed
    qed
  qed
qed

lemma sync_metric_poll_count:
  "length (filter is_poll (fst (sync_metric cl cid metric date))) \<le> 10"
proof (cases "responses_post cl metric date cid")
  case (Inl msg)
  then show ?thesis by (simp add: sync_metric_def post_metric_def)
next
  case (Inr job)
  obtain ev r where p: "poll_loop cl job 0 None = (ev, r)" by (cases "poll_loop cl job 0 None")
  have "length (filter is_poll ev) \<le> 10"
    using poll_loop_count[of cl job 0 None] p by simp
  then show ?thesis using Inr p
    by (auto simp: sync_metric_def post_metric_def write_records_def
        split: sum.splits option.splits poll_data.splits)
qed

text \<open>
  C5. After the job is created, \<^verbatim>\<open>sync_metric\<close> polls the job's result at most 10
  times, sleeping 5 seconds after each empty answer; the first answer that is not the empty
  string ends the polling and is the result; when all 10 answers are empty the cell ends
  with an exception (\<^verbatim>\<open>TypeError\<close>, from indexing the empty string) and writes no
  records.
\<close>

theorem sync_metric_polling:
  assumes "responses_post cl metric date cid = Inr job"
  shows "length (filter is_poll (fst (sync_metric cl cid metric date))) \<le> 10
       \<and> (\<forall>k d. 1 \<le> k \<and> k \<le> 10
             \<and> (\<forall>i. 1 \<le> i \<and> i < k \<longrightarrow> responses_get cl job i = Inr (DStr []))
             \<and> responses_get cl job k = Inr d \<and> d \<noteq> DStr []
           \<longrightarrow> poll_loop cl job 0 None =
                 (concat (replicate (k - 1) [ResponsesGet job, Sleep 5]) @ [ResponsesGet job],
                  Inr (Some d)))
       \<and> ((\<forall>i. 1 \<le> i \<and> i \<le> 10 \<longrightarrow> responses_get cl job i = Inr (DStr []))
           \<longrightarrow> sync_metric cl cid metric date =
                 (ResponsesPost metric date cid
                    # concat (replicate 10 [ResponsesGet job, Sleep 5]),
                  Inl (TypeError ''string indices must be integers'')))"
proof (intro conjI allI impI)
  show "length (filter is_poll (fst (sync_metric cl cid metric date))) \<le> 10"
    by (rule sync_metric_poll_count)
next
  fix k d
  assume h: "1 \<le> k \<and> k \<le> 10
             \<and> (\<forall>i. 1 \<le> i \<and> i < k \<longrightarrow> responses_get cl job i = Inr (DStr []))
             \<and> responses_get cl job k = Inr d \<and> d \<noteq> DStr []"
  then have "\<forall>i. 0 < i \<and> i < k \<longrightarrow> responses_get cl job i = Inr (DStr [])" by simp
  with h show "poll_loop cl job 0 None =
                 (concat (replicate (k - 1) [ResponsesGet job, Sleep 5]) @ [ResponsesGet job],
                  Inr (Some d))"
    using poll_loop_ready[of 0 k cl job d None] by simp
next
  assume "\<forall>i. 1 \<le> i \<and> i \<le> 10 \<longrightarrow> responses_get cl job i = Inr (DStr [])"
  then have "\<forall>i. 0 < i \<and> i \<le> 10 \<longrightarrow> responses_get cl job i = Inr (DStr [])" by simp
  then have "poll_loop cl job 0 None =
      (concat (replicate 10 [ResponsesGet job, Sleep 5]), Inr (Some (DStr [])))"
    using poll_loop_exhausted[of 0 cl job None] by simp
  then show "sync_metric cl cid metric date =
                 (ResponsesPost metric date cid
                    # concat (replicate 10 [ResponsesGet job, Sleep 5]),
                  Inl (TypeError ''string indices must be integers''))"
    using assms by (simp add: sync_metric_def post_metric_def)
qed

theorem sync_metric_polling_witness:
  "sync_metric (job_client never_ready) ''5'' ''click'' (DateString 0) =
     (ResponsesPost ''click'' (DateString 0) ''5''
        # concat (replicate 10 [ResponsesGet ''job'', Sleep 5]),
      Inl (TypeError ''string indices must be integers''))
   \<and> poll_loop (job_client ready_at_third) ''job'' 0 None =
       ([ResponsesGet ''job'', Sleep 5, ResponsesGet ''job'', Sleep 5, ResponsesGet ''job''],
        Inr (Some (DObj (Some [''17'', ''23'']))))"
proof -
  have p1: "responses_post (job_client never_ready) ''click'' (DateString 0) ''5'' = Inr ''job''"
    by (simp add: job_client_def)
  have e1: "\<forall>i. 1 \<le> i \<and> i \<le> 10 \<longrightarrow>
              responses_get (job_client never_ready) ''job'' i = Inr (DStr [])"
    by (simp add: job_client_def never_ready_def)
  have p2: "responses_post (job_client ready_at_third) ''click'' (DateString 0) ''5'' = Inr ''job''"
    by (simp add: job_client_def)
  have e2: "(1::nat) \<le> 3 \<and> (3::nat) \<le> 10
      \<and> (\<forall>i. 1 \<le> i \<and> i < 3 \<longrightarrow>
            responses_get (job_client ready_at_third) ''job'' i = Inr (DStr []))
      \<and> responses_get (job_client ready_at_third) ''job'' 3 = Inr (DObj (Some [''17'', ''23'']))
      \<and> DObj (Some [''17'', ''23'']) \<noteq> DStr []"
    by (simp add: job_client_def ready_at_third_def)
  have a: "sync_metric (job_client never_ready) ''5'' ''click'' (DateString 0) =
     (ResponsesPost ''click'' (DateString 0) ''5''
        # concat (replicate 10 [ResponsesGet ''job'', Sleep 5]),
      Inl (TypeError ''string indices must be integers''))"
    using sync_metric_polling[OF p1] e1 by blast
  have "poll_loop (job_client ready_at_third) ''job'' 0 None =
          (concat (replicate (3 - 1) [ResponsesGet ''job'', Sleep 5]) @ [ResponsesGet ''job''],
           Inr (Some (DObj (Some [''17'', ''23'']))))"
    using sync_metric_polling[OF p2] e2 by blast
  then have b: "poll_loop (job_client ready_at_third) ''job'' 0 None =
       ([ResponsesGet ''job'', Sleep 5, ResponsesGet ''job'', Sleep 5, ResponsesGet ''job''],
        Inr (Some (DObj (Some [''17'', ''23'']))))"
    by (simp add: numeral_2_eq_2)
  from a b show ?thesis by simp
qed

text \<open>
  C8. When the job's result is ready with a \<^verbatim>\<open>contact_ids\<close> list (at poll \<open>k\<close> of at
  most 10, after empty answers), \<^verbatim>\<open>sync_metric\<close> returns without error; it writes
  nothing when the list is exactly the single empty string, and otherwise writes one batch
  to \<^verbatim>\<open>metrics\<close> holding one record of date, metric and contact id per contact id.
\<close>

theorem sync_metric_ready_result:
  assumes "responses_post cl metric date cid = Inr job"
      and "1 \<le> k" and "k \<le> 10"
      and "\<forall>i. 1 \<le> i \<and> i < k \<longrightarrow> responses_get cl job i = Inr (DStr [])"
      and "responses_get cl job k = Inr (DObj (Some contact_ids))"
  shows "sync_metric cl cid metric date =
           (ResponsesPost metric date cid
              # concat (replicate (k - 1) [ResponsesGet job, Sleep 5]) @ [ResponsesGet job]
              @ (if contact_ids = [[]] then []
                 else [WriteRecords ''metrics''
                         (map (\<lambda>contact_id. MetricRow date metric contact_id) contact_ids)]),
            Inr ())"
proof -
  have "\<forall>i. 0 < i \<and> i < k \<longrightarrow> responses_get cl job i = Inr (DStr [])"
    using assms(4) by simp
  then have "poll_loop cl job 0 None =
      (concat (replicate (k - 1) [ResponsesGet job, Sleep 5]) @ [ResponsesGet job],
       Inr (Some (DObj (Some contact_ids))))"
    using poll_loop_ready[of 0 k cl job "DObj (Some contact_ids)" None] assms by simp
  then show ?thesis using assms(1)
    by (cases "contact_ids = [[]]")
       (simp_all add: sync_metric_def post_metric_def write_records_def single_empty_iff)
qed

theorem sync_metric_ready_result_witness:
  "sync_metric (job_client zero_matches) ''5'' ''click'' (DateString 0) =
     ([ResponsesPost ''click'' (DateString 0) ''5'', ResponsesGet ''job''], Inr ())
   \<and> sync_metric (job_client ready_at_third) ''5'' ''click'' (DateString 0) =
     ([ResponsesPost ''click'' (DateString 0) ''5'', ResponsesGet ''job'', Sleep 5,
       ResponsesGet ''job'', Sleep 5, ResponsesGet ''job'',
       WriteRecords ''metrics'' [MetricRow (DateString 0) ''click'' ''17'',
                                 MetricRow (DateString 0) ''click'' ''23'']], Inr ())"
proof -
  have a: "sync_metric (job_client zero_matches) ''5'' ''click'' (DateString 0) =
     ([ResponsesPost ''click'' (DateString 0) ''5'', ResponsesGet ''job''], Inr ())"
    using sync_metric_ready_result[of "job_client zero_matches" "''click''" "DateString 0"
        "''5''" "''job''" 1 "[[]]"]
    by (simp add: job_client_def zero_matches_def)
  have b: "sync_metric (job_client ready_at_third) ''5'' ''click'' (DateString 0) =
     ([ResponsesPost ''click'' (DateString 0) ''5'', ResponsesGet ''job'', Sleep 5,
       ResponsesGet ''job'', Sleep 5, ResponsesGet ''job'',
       WriteRecords ''metrics'' [MetricRow (DateString 0) ''click'' ''17'',
                                 MetricRow (DateString 0) ''click'' ''23'']], Inr ())"
    using sync_metric_ready_result[of "job_client ready_at_third" "''click''" "DateString 0"
        "''5''" "''job''" 3 "[''17'', ''23'']"]
    by (simp add: job_client_def ready_at_third_def numeral_2_eq_2)
  from a b show ?thesis by simp
qed

subsection \<open>The end of \<^verbatim>\<open>sync_metrics\<close>\<close>

lemma finish_metrics_raises: "finish_metrics c st = ([], Inl (NameError ''reset_stream''))"
  by (simp add: finish_metrics_def module_globals_def)

lemma sync_metrics_after_loops:
  "sync_metrics_loops c campaigns = (ev, Inr st)
     \<Longrightarrow> sync_metrics c campaigns = (ev, Inl (NameError ''reset_stream''))"
  by (simp add: sync_metrics_def finish_metrics_raises)

lemma sync_metrics_never_returns: "snd (sync_metrics c campaigns) \<noteq> Inr st"
  by (cases "sync_metrics_loops c campaigns")
     (auto simp: sync_metrics_def finish_metrics_raises split: sum.splits)

lemmas example_defs = job_client_def never_ready_def ready_at_third_def zero_matches_def
  one_match_def day_2021_03_01_def day_2021_03_02_def day_2021_03_03_def fresh_ctx_def
  campaign_1_def campaign_2_def empty_bookmark_def

lemmas run_defs = sync_metrics_def sync_metrics_loops_def resume_or_start_def
  finish_metrics_def module_globals_def metrics_selected_of_def end_date_of_def
  start_date_of_def dates_while_def date_loop.simps sync_metric_def post_metric_def
  poll_loop.simps write_records_def write_metrics_state_def to_date_string_def add_days_def
  day_length_def configured_start_date_def

text \<open>
  C1. The claim is that a run which completes its loops clears the resume fields, records
  \<^verbatim>\<open>last_metric_date\<close> and writes the state. On the code, line 242 calls
  \<^verbatim>\<open>reset_stream\<close>, a name the module never binds (line 8 imports only
  \<^verbatim>\<open>write_bookmark\<close> and \<^verbatim>\<open>clear_bookmark\<close>): with no campaign the run
  writes nothing and ends in \<^verbatim>\<open>NameError\<close>; with one live campaign it ends in
  \<^verbatim>\<open>NameError\<close> after its cells, and no state it wrote has a
  \<^verbatim>\<open>last_metric_date\<close> or cleared resume fields.
\<close>

theorem sync_metrics_completion_raises:
  "sync_metrics fresh_ctx [] = ([], Inl (NameError ''reset_stream''))
   \<and> snd (sync_metrics fresh_ctx [campaign_1, campaign_2]) = Inl (NameError ''reset_stream'')
   \<and> map last_metric_date (checkpoints (fst (sync_metrics fresh_ctx [campaign_1, campaign_2])))
       = [None, None, None, None]
   \<and> map campaigns_to_resume
         (checkpoints (fst (sync_metrics fresh_ctx [campaign_1, campaign_2])))
       = [Some [''1''], Some [''1''], Some [''1''], Some [''1'']]"
  by (simp add: example_defs run_defs)

subsection \<open>Pagination\<close>

lemma batches_append: "batches sid (xs @ ys) = batches sid xs @ batches sid ys"
  by (induction sid xs rule: batches.induct) auto

text \<open>The pages of a collection: \<open>pages L off xs\<close> lists the pages served from
  \<open>off\<close> on, up to and including the first short one.\<close>

lemma upt_0_Suc: "[0..<Suc m] = 0 # map Suc [0..<m]"
  by (metis map_Suc_upt upt_conv_Cons zero_less_Suc)

lemma pages_shift:
  assumes "0 < L" "L \<le> length (drop off ms)"
  shows "map (\<lambda>i. take L (drop (off + i * L) ms)) [0..<Suc (length (drop off ms) div L)]
        = take L (drop off ms)
          # map (\<lambda>i. take L (drop (off + L + i * L) ms))
              [0..<Suc (length (drop (off + L) ms) div L)]"
proof -
  have d: "length (drop (off + L) ms) = length (drop off ms) - L" by simp
  have dv: "length (drop off ms) div L = Suc (length (drop (off + L) ms) div L)"
    using assms d by (simp add: le_div_geq)
  have "[0..<Suc (Suc (length (drop (off + L) ms) div L))]
      = 0 # map Suc [0..<Suc (length (drop (off + L) ms) div L)]"
    by (rule upt_0_Suc)
  then show ?thesis unfolding dv by (simp add: add.assoc o_def del: upt_Suc)
qed

lemma memberships_pages:
  assumes "0 < L" and ms: "ms = members lid"
  shows "length (drop off ms) div L < depth \<Longrightarrow>
      snd (sync_contact_list_memberships depth (paged_client ids fo members) lid L off) = Inr ()
      \<and> batches ''contact_list_memberships''
          (fst (sync_contact_list_memberships depth (paged_client ids fo members) lid L off))
        = map (map (MembershipRow lid))
            (map (\<lambda>i. take L (drop (off + i * L) ms)) [0..<Suc (length (drop off ms) div L)])"
proof (induction depth arbitrary: off)
  case 0
  then show ?case by simp
next
  case (Suc depth)
  define page where "page = take L (drop off ms)"
  define cl where "cl = paged_client ids fo members"
  have get: "contactlist_get cl lid L off = Inr page"
    by (simp add: paged_client_def page_def cl_def ms)
  show ?case
  proof (cases "length page = L")
    case False
    then have short: "length (drop off ms) < L" by (simp add: page_def min_def split: if_splits)
    then have z: "length (drop off ms) div L = 0" by simp
    have pg: "take L (drop off ms) = page" by (simp add: page_def)
    have "sync_contact_list_memberships (Suc depth) cl lid L off
        = ([ContactListGet lid L off,
            WriteRecords ''contact_list_memberships'' (map (MembershipRow lid) page)], Inr ())"
      using get False by (simp add: write_records_def)
    then show ?thesis unfolding cl_def[symmetric] z by (simp add: pg)
  next
    case True
    then have ge: "L \<le> length (drop off ms)" by (simp add: page_def min_def split: if_splits)
    have d: "length (drop (off + L) ms) = length (drop off ms) - L" by simp
    have dv: "length (drop off ms) div L = Suc (length (drop (off + L) ms) div L)"
      using ge assms d by (simp add: le_div_geq)
    then have "length (drop (off + L) ms) div L < depth" using Suc.prems by simp
    from Suc.IH[OF this] obtain
      r: "snd (sync_contact_list_memberships depth cl lid L (off + L)) = Inr ()"
      and b: "batches ''contact_list_memberships''
          (fst (sync_contact_list_memberships depth cl lid L (off + L)))
        = map (map (MembershipRow lid))
            (map (\<lambda>i. take L (drop (off + L + i * L) ms))
               [0..<Suc (length (drop (off + L) ms) div L)])"
      unfolding cl_def by blast
    obtain ev x where rec: "sync_contact_list_memberships depth cl lid L (off + L) = (ev, x)"
      by (cases "sync_contact_list_memberships depth cl lid L (off + L)")
    have step: "sync_contact_list_memberships (Suc depth) cl lid L off
        = (ContactListGet lid L off
           # WriteRecords ''contact_list_memberships'' (map (MembershipRow lid) page) # ev, x)"
      using get True rec by (simp add: write_records_def)
    show ?thesis
      unfolding cl_def[symmetric] step pages_shift[OF assms(1) ge]
      using r b rec by (simp add: page_def del: upt_Suc)
  qed
qed


lemma map_raising_ok:
  "(\<forall>x\<in>set xs. \<exists>y. f x = Inr y) \<Longrightarrow> map_raising f xs = Inr (map (projr \<circ> f) xs)"
  by (induction xs) auto

lemma contacts_pages:
  assumes "0 < L"
      and ok: "\<forall>k\<in>set ids. \<exists>r. transform_contact parse_iso fm ((''id'', Some k) # fo k) = Inr r"
  shows "length (drop off ids) div L < depth \<Longrightarrow>
      snd (paginate_contacts depth (paged_client ids fo members) parse_iso fm sel L off) = Inr ()
      \<and> batches ''contacts''
          (fst (paginate_contacts depth (paged_client ids fo members) parse_iso fm sel L off))
        = map (map (\<lambda>k. ContactRow (projr (transform_contact parse_iso fm ((''id'', Some k) # fo k)))))
            (map (\<lambda>i. take L (drop (off + i * L) ids)) [0..<Suc (length (drop off ids) div L)])"
proof (induction depth arbitrary: off)
  case 0
  then show ?case by simp
next
  case (Suc depth)
  define page where "page = take L (drop off ids)"
  define cl where "cl = paged_client ids fo members"
  define tr where "tr = (\<lambda>k. projr (transform_contact parse_iso fm ((''id'', Some k) # fo k)))"
  define cpage where "cpage = map (\<lambda>k. (''id'', Some k) # fo k) page"
  have q: "contact_query cl L off = Inr \<lparr>errors = [], result = page\<rparr>"
    by (simp add: paged_client_def page_def cl_def)
  have g: "contact_getdata cl page (map fi_id sel) = Inr cpage"
    by (simp add: paged_client_def cl_def cpage_def)
  have "set page \<subseteq> set ids" unfolding page_def
    by (meson set_take_subset set_drop_subset subset_trans)
  then have "\<forall>c\<in>set cpage. \<exists>y. transform_contact parse_iso fm c = Inr y"
    using ok by (auto simp: cpage_def)
  then have "map_raising (transform_contact parse_iso fm) cpage
      = Inr (map (projr \<circ> transform_contact parse_iso fm) cpage)"
    by (rule map_raising_ok)
  then have t: "map_raising (transform_contact parse_iso fm) cpage
      = Inr (map (\<lambda>k. projr (transform_contact parse_iso fm ((''id'', Some k) # fo k))) page)"
    by (simp add: cpage_def o_def)
  have len: "length cpage = length page" by (simp add: cpage_def)
  have pg: "take L (drop off ids) = page" by (simp add: page_def)
  show ?case
  proof (cases "length page = L")
    case False
    then have short: "length (drop off ids) < L" by (simp add: page_def min_def split: if_splits)
    then have z: "length (drop off ids) div L = 0" by simp
    have "paginate_contacts (Suc depth) cl parse_iso fm sel L off
        = ([ContactQuery L off, ContactGetData page (map fi_id sel),
            WriteRecords ''contacts''
              (map ContactRow (map (\<lambda>k. projr (transform_contact parse_iso fm ((''id'', Some k) # fo k))) page))],
           Inr ())"
      using q g t False len by (simp add: write_records_def)
    then show ?thesis unfolding cl_def[symmetric] z by (simp add: pg o_def)
  next
    case True
    then have ge: "L \<le> length (drop off ids)" by (simp add: page_def min_def split: if_splits)
    have d: "length (drop (off + L) ids) = length (drop off ids) - L" by simp
    have dv: "length (drop off ids) div L = Suc (length (drop (off + L) ids) div L)"
      using ge assms d by (simp add: le_div_geq)
    then have "length (drop (off + L) ids) div L < depth" using Suc.prems by simp
    from Suc.IH[OF this] obtain
      r: "snd (paginate_contacts depth cl parse_iso fm sel L (off + L)) = Inr ()"
      and b: "batches ''contacts'' (fst (paginate_contacts depth cl parse_iso fm sel L (off + L)))
        = map (map (\<lambda>k. ContactRow (projr (transform_contact parse_iso fm ((''id'', Some k) # fo k)))))
            (map (\<lambda>i. take L (drop (off + L + i * L) ids))
               [0..<Suc (length (drop (off + L) ids) div L)])"
      unfolding cl_def by blast
    obtain ev x where rec: "paginate_contacts depth cl parse_iso fm sel L (off + L) = (ev, x)"
      by (cases "paginate_contacts depth cl parse_iso fm sel L (off + L)")
    have step: "paginate_contacts (Suc depth) cl parse_iso fm sel L off
        = (ContactQuery L off # ContactGetData page (map fi_id sel)
           # WriteRecords ''contacts''
              (map ContactRow (map (\<lambda>k. projr (transform_contact parse_iso fm ((''id'', Some k) # fo k))) page))
           # ev, x)"
      using q g t True len rec by (simp add: write_records_def)
    show ?thesis
      unfolding cl_def[symmetric] step pages_shift[OF assms(1) ge]
      using r b rec by (simp add: page_def o_def del: upt_Suc)
  qed
qed

lemma const_map_upt: "(\<forall>i<k. f i = c) \<Longrightarrow> map f [0..<k] = replicate k c"
  by (induction k) (auto simp: replicate_append_same)

lemma pages_lengths:
  assumes "0 < L"
  shows "map length (map (\<lambda>i. take L (drop (i * L) xs)) [0..<Suc (length xs div L)])
       = replicate (length xs div L) L @ [length xs mod L]"
proof -
  let ?f = "\<lambda>i. length (take L (drop (i * L) xs))"
  have full: "\<forall>i < length xs div L. ?f i = L"
  proof (intro allI impI)
    fix i assume "i < length xs div L"
    then have "Suc i \<le> length xs div L" by simp
    then have "Suc i * L \<le> (length xs div L) * L" by (rule mult_le_mono1)
    also have "\<dots> \<le> length xs" by (simp add: div_times_less_eq_dividend)
    finally have "i * L + L \<le> length xs" by simp
    then show "?f i = L" by simp
  qed
  have lastp: "?f (length xs div L) = length xs mod L"
  proof -
    have "length xs - (length xs div L) * L = length xs mod L"
      by (simp add: minus_div_mult_eq_mod)
    moreover have "length xs mod L < L" using assms by simp
    ultimately show ?thesis by (simp add: min_def)
  qed
  have "map ?f [0..<Suc (length xs div L)] = map ?f [0..<length xs div L] @ [?f (length xs div L)]"
    by simp
  also have "\<dots> = replicate (length xs div L) L @ [length xs mod L]"
    using const_map_upt[OF full] lastp by simp
  finally show ?thesis by (simp add: o_def del: upt_Suc)
qed

lemma pages_concat:
  assumes "0 < L"
  shows "length (drop off xs) div L = k \<Longrightarrow>
     concat (map (\<lambda>i. take L (drop (off + i * L) xs)) [0..<Suc k]) = drop off xs"
proof (induction k arbitrary: off)
  case 0
  have "length (drop off xs) < L"
  proof (rule ccontr)
    assume "\<not> length (drop off xs) < L"
    then have "L \<le> length (drop off xs)" by simp
    then have "length (drop off xs) div L = Suc ((length (drop off xs) - L) div L)"
      using assms by (simp add: le_div_geq)
    with 0 show False by simp
  qed
  then show ?case by simp
next
  case (Suc k)
  have ge: "L \<le> length (drop off xs)"
  proof (rule ccontr)
    assume "\<not> L \<le> length (drop off xs)"
    then have "length (drop off xs) div L = 0" by simp
    with Suc.prems show False by simp
  qed
  have d: "length (drop (off + L) xs) = length (drop off xs) - L" by simp
  have "length (drop off xs) div L = Suc (length (drop (off + L) xs) div L)"
    using ge assms d by (simp add: le_div_geq)
  then have k: "length (drop (off + L) xs) div L = k" using Suc.prems by simp
  have ih: "concat (map (\<lambda>i. take L (drop (off + L + i * L) xs)) [0..<Suc k]) = drop (off + L) xs"
    by (rule Suc.IH[OF k])
  have sh: "map (\<lambda>i. take L (drop (off + i * L) xs)) [0..<Suc (Suc k)]
     = take L (drop off xs) # map (\<lambda>i. take L (drop (off + L + i * L) xs)) [0..<Suc k]"
    using pages_shift[OF assms ge] Suc.prems k by simp
  have "take L (drop off xs) @ drop L (drop off xs) = drop off xs"
    by (rule append_take_drop_id)
  then have "take L (drop off xs) @ drop (off + L) xs = drop off xs"
    by (simp add: add.commute)
  then show ?case unfolding sh using ih by (simp del: upt_Suc)
qed


text \<open>
  C3, as the code has it. For a collection of \<open>N\<close> records served in pages of
  \<open>L > 0\<close> records, and a call stack deep enough for \<open>N div L + 1\<close> nested calls,
  \<^verbatim>\<open>paginate_contacts\<close> and \<^verbatim>\<open>sync_contact_list_memberships\<close> return without
  error after writing \<open>N div L + 1\<close> batches: \<open>N div L\<close> full ones, then the first
  page with fewer than \<open>L\<close> records, which is empty when \<open>L\<close> divides \<open>N\<close>. The
  batches hold \<open>N\<close> records in all.
\<close>

theorem pagination_batches:
  assumes "0 < L"
      and "length ids div L < depth"
      and "length (members lid) div L < depth"
      and "\<forall>k\<in>set ids. \<exists>r. transform_contact parse_iso fm ((''id'', Some k) # fields_of k) = Inr r"
  shows "snd (paginate_contacts depth (paged_client ids fields_of members) parse_iso fm sel L 0)
           = Inr ()
       \<and> map length (batches ''contacts''
            (fst (paginate_contacts depth (paged_client ids fields_of members) parse_iso fm sel L 0)))
           = replicate (length ids div L) L @ [length ids mod L]
       \<and> length (concat (batches ''contacts''
            (fst (paginate_contacts depth (paged_client ids fields_of members) parse_iso fm sel L 0))))
           = length ids
       \<and> snd (sync_contact_list_memberships depth (paged_client ids fields_of members) lid L 0)
           = Inr ()
       \<and> map length (batches ''contact_list_memberships''
            (fst (sync_contact_list_memberships depth (paged_client ids fields_of members) lid L 0)))
           = replicate (length (members lid) div L) L @ [length (members lid) mod L]
       \<and> concat (batches ''contact_list_memberships''
            (fst (sync_contact_list_memberships depth (paged_client ids fields_of members) lid L 0)))
           = map (MembershipRow lid) (members lid)"
proof -
  define cl where "cl = paged_client ids fields_of members"
  define tr where
    "tr = (\<lambda>k. ContactRow (projr (transform_contact parse_iso fm ((''id'', Some k) # fields_of k))))"
  define cpages where "cpages = map (\<lambda>i. take L (drop (i * L) ids)) [0..<Suc (length ids div L)]"
  define mpages where
    "mpages = map (\<lambda>i. take L (drop (i * L) (members lid))) [0..<Suc (length (members lid) div L)]"
  have c: "snd (paginate_contacts depth cl parse_iso fm sel L 0) = Inr ()
      \<and> batches ''contacts'' (fst (paginate_contacts depth cl parse_iso fm sel L 0))
          = map (map tr) cpages"
    using contacts_pages[OF assms(1) assms(4), of 0 depth members sel] assms(2)
    by (simp add: cl_def tr_def cpages_def del: upt_Suc)
  have m: "snd (sync_contact_list_memberships depth cl lid L 0) = Inr ()
      \<and> batches ''contact_list_memberships'' (fst (sync_contact_list_memberships depth cl lid L 0))
          = map (map (MembershipRow lid)) mpages"
    using memberships_pages[OF assms(1) refl, of 0 members lid depth ids fields_of] assms(3)
    by (simp add: cl_def mpages_def del: upt_Suc)
  have cl_len: "map length (map (map tr) cpages) = replicate (length ids div L) L @ [length ids mod L]"
    using pages_lengths[OF assms(1), of ids] by (simp add: cpages_def o_def del: upt_Suc)
  have ml_len: "map length (map (map (MembershipRow lid)) mpages)
      = replicate (length (members lid) div L) L @ [length (members lid) mod L]"
    using pages_lengths[OF assms(1), of "members lid"] by (simp add: mpages_def o_def del: upt_Suc)
  have cc: "concat cpages = ids"
    using pages_concat[OF assms(1), of 0 ids "length ids div L"] by (simp add: cpages_def del: upt_Suc)
  have mc: "concat mpages = members lid"
    using pages_concat[OF assms(1), of 0 "members lid" "length (members lid) div L"]
    by (simp add: mpages_def del: upt_Suc)
  have "concat (map (map tr) cpages) = map tr (concat cpages)" by (simp add: map_concat)
  then have c_tot: "length (concat (map (map tr) cpages)) = length ids" using cc by simp
  have "concat (map (map (MembershipRow lid)) mpages) = map (MembershipRow lid) (concat mpages)"
    by (simp add: map_concat)
  then have m_tot: "concat (map (map (MembershipRow lid)) mpages) = map (MembershipRow lid) (members lid)"
    using mc by simp
  show ?thesis
    unfolding cl_def[symmetric] using c m cl_len ml_len c_tot m_tot by simp
qed

theorem pagination_batches_witness:
  "map length (batches ''contacts''
      (fst (paginate_contacts 5 (paged_client [''a'', ''b'', ''c''] no_fields two_members)
              no_iso Map.empty [] 2 0))) = [2, 1]
   \<and> map length (batches ''contact_list_memberships''
      (fst (sync_contact_list_memberships 5
              (paged_client [''a'', ''b'', ''c''] no_fields two_members) ''7'' 2 0))) = [2, 0]
   \<and> snd (sync_contact_list_memberships 5
              (paged_client [''a'', ''b'', ''c''] no_fields two_members) ''7'' 2 0) = Inr ()"
proof -
  have h1: "(0::nat) < 2" by simp
  have h2: "length [''a'', ''b'', ''c''] div 2 < (5::nat)" by simp
  have h3: "length (two_members ''7'') div 2 < (5::nat)" by (simp add: two_members_def)
  have h4: "\<forall>k\<in>set [''a'', ''b'', ''c''].
      \<exists>r. transform_contact no_iso Map.empty ((''id'', Some k) # no_fields k) = Inr r"
    by (simp add: transform_contact_def no_fields_def)
  have l3: "length [''a'', ''b'', ''c''] = 3" by simp
  have l2: "length (two_members ''7'') = 2" by (simp add: two_members_def)
  have r3: "replicate (3 div 2) (2::nat) @ [3 mod 2] = [2, 1]" by simp
  have r2: "replicate (2 div 2) (2::nat) @ [2 mod 2] = [2, 0]" by simp
  note f = pagination_batches[of 2 "[''a'', ''b'', ''c'']" 5 two_members "''7''" no_iso Map.empty
        no_fields "[]", OF h1 h2 h3 h4, unfolded l3 l2 r3 r2]
  from f show ?thesis by blast
qed

theorem pagination_ceil_counterexample:
  "batches ''contact_list_memberships''
      (fst (sync_contact_list_memberships 5 (paged_client [] no_fields two_members) ''7'' 2 0))
     = [[MembershipRow ''7'' ''a'', MembershipRow ''7'' ''b''], []]
   \<and> length (batches ''contact_list_memberships''
      (fst (sync_contact_list_memberships 5 (paged_client [] no_fields two_members) ''7'' 2 0)))
     \<noteq> ceil_div (length (two_members ''7'')) 2"
proof -
  have b: "batches ''contact_list_memberships''
      (fst (sync_contact_list_memberships 5 (paged_client [] no_fields two_members) ''7'' 2 0))
     = [[MembershipRow ''7'' ''a'', MembershipRow ''7'' ''b''], []]"
    by (simp add: paged_client_def two_members_def write_records_def eval_nat_numeral)
  have c: "ceil_div (length (two_members ''7'')) 2 = 1"
    by (simp add: ceil_div_def two_members_def)
  show ?thesis unfolding b c by simp
qed

subsection \<open>Field selection in \<^verbatim>\<open>sync_contacts\<close>\<close>

lemma field_maps_names:
  "dom (fst (field_maps n raw (m1, m2))) = dom m1 \<union> (\<lambda>r. n (rf_name r)) ` set raw"
  by (induction raw arbitrary: m1 m2) (auto simp: Let_def)

lemma select_fields_result:
  "select_fields fnm props acc =
     (case filter (\<lambda>q. snd q = Some True \<and> fnm (fst q) = None) props of
        [] \<Rightarrow> Inr (acc @ map (\<lambda>q. the (fnm (fst q))) (filter (\<lambda>q. snd q = Some True) props))
      | q # qs \<Rightarrow> Inl (Exception (field_unavailable (fst q))))"
proof (induction props arbitrary: acc)
  case Nil
  then show ?case by simp
next
  case (Cons a props)
  obtain pr selected where a: "a = (pr, selected)" by (cases a)
  show ?case
  proof (cases "selected = Some True")
    case False
    then show ?thesis unfolding a using Cons.IH[of acc] by (simp split: list.splits)
  next
    case sel: True
    show ?thesis
    proof (cases "fnm pr")
      case None
      then show ?thesis unfolding a using sel by simp
    next
      case (Some info)
      then show ?thesis unfolding a using Cons.IH[of "acc @ [info]"] sel
        by (simp split: list.splits)
    qed
  qed
qed

lemma field_unavailable_inject: "field_unavailable p = field_unavailable q \<Longrightarrow> p = q"
  by (simp add: field_unavailable_def)

lemma transform_fields_no_exception:
  "transform_fields parse_iso fm contact new_obj \<noteq> Inl (Exception msg)"
  by (induction parse_iso fm contact new_obj rule: transform_fields.induct)
     (auto split: option.splits)

lemma map_raising_no_exception:
  "(\<And>x. f x \<noteq> Inl (Exception msg)) \<Longrightarrow> map_raising f xs \<noteq> Inl (Exception msg)"
  by (induction xs) (auto split: sum.splits)

lemma transform_page_no_exception:
  "map_raising (transform_contact parse_iso fm) page \<noteq> Inl (Exception msg)"
  by (rule map_raising_no_exception) (simp add: transform_contact_def transform_fields_no_exception)

lemma paginate_contacts_other_error:
  "snd (paginate_contacts depth cl parse_iso fm sel L off) \<noteq> Inl (Exception (field_unavailable p))"
proof (induction depth arbitrary: off)
  case 0
  then show ?case by simp
next
  case (Suc depth)
  show ?case
    using Suc.IH transform_page_no_exception[of parse_iso fm _ "field_unavailable p"]
    by (auto simp: write_records_def case_prod_beta field_unavailable_def
        split: sum.splits if_splits)
qed


text \<open>
  C9. \<^verbatim>\<open>sync_contacts\<close> ends with the exception that names a property exactly when
  some property of the schema is marked selected and no raw field has that normalized name;
  the property named is such a property, and the exception is raised before any request for
  a contact page and before any record is written (the trace is empty).
\<close>

theorem sync_contacts_missing_field:
  "((\<exists>p. snd (sync_contacts depth cl parse_iso normalize_fieldname raw_fields properties)
            = Inl (Exception (field_unavailable p)))
      = (\<exists>q\<in>set properties. snd q = Some True
            \<and> fst q \<notin> (\<lambda>r. normalize_fieldname (rf_name r)) ` set raw_fields))
   \<and> (\<forall>p. snd (sync_contacts depth cl parse_iso normalize_fieldname raw_fields properties)
            = Inl (Exception (field_unavailable p))
        \<longrightarrow> fst (sync_contacts depth cl parse_iso normalize_fieldname raw_fields properties) = []
            \<and> (p, Some True) \<in> set properties
            \<and> p \<notin> (\<lambda>r. normalize_fieldname (rf_name r)) ` set raw_fields)"
proof -
  obtain fnm fim where fm: "field_maps normalize_fieldname raw_fields (Map.empty, Map.empty) = (fnm, fim)"
    by (cases "field_maps normalize_fieldname raw_fields (Map.empty, Map.empty)")
  have "dom fnm = (\<lambda>r. normalize_fieldname (rf_name r)) ` set raw_fields"
    using field_maps_names[of normalize_fieldname raw_fields Map.empty Map.empty] fm by simp
  then have avail: "\<And>p. (fnm p = None) = (p \<notin> (\<lambda>r. normalize_fieldname (rf_name r)) ` set raw_fields)"
    by (metis domIff)
  define missing where "missing = filter (\<lambda>q. snd q = Some True \<and> fnm (fst q) = None) properties"
  show ?thesis
  proof (cases missing)
    case Nil
    then have none: "\<not> (\<exists>q\<in>set properties. snd q = Some True \<and> fnm (fst q) = None)"
      unfolding missing_def by (simp add: filter_empty_conv)
    obtain sel where sel: "select_fields fnm properties [] = Inr sel"
      using select_fields_result[of fnm properties "[]"] Nil unfolding missing_def by simp
    have "\<And>p. snd (sync_contacts depth cl parse_iso normalize_fieldname raw_fields properties)
            \<noteq> Inl (Exception (field_unavailable p))"
      using fm sel paginate_contacts_other_error by (simp add: sync_contacts_def)
    then show ?thesis using none avail by auto
  next
    case (Cons q qs)
    then have "q \<in> set missing" by simp
    then have q: "q \<in> set properties" "snd q = Some True" "fnm (fst q) = None"
      unfolding missing_def by auto
    have "select_fields fnm properties [] = Inl (Exception (field_unavailable (fst q)))"
      using select_fields_result[of fnm properties "[]"] Cons unfolding missing_def by simp
    then have run: "sync_contacts depth cl parse_iso normalize_fieldname raw_fields properties
        = ([], Inl (Exception (field_unavailable (fst q))))"
      using fm by (simp add: sync_contacts_def)
    have mem: "(fst q, Some True) \<in> set properties" using q(1,2) by (metis prod.collapse)
    show ?thesis
      unfolding run using q mem avail by (auto dest: field_unavailable_inject)
  qed
qed

theorem sync_contacts_missing_field_witness:
  "(\<exists>p. snd (sync_contacts 3 (paged_client [] no_fields two_members) no_iso (\<lambda>s. s)
             [raw_email, raw_birth]
             [(''email'', Some True), (''phone'', Some True), (''birth'', None)])
          = Inl (Exception (field_unavailable p)))
   \<and> fst (sync_contacts 3 (paged_client [] no_fields two_members) no_iso (\<lambda>s. s)
             [raw_email, raw_birth]
             [(''email'', Some True), (''phone'', Some True), (''birth'', None)]) = []
   \<and> \<not> (\<exists>p. snd (sync_contacts 3 (paged_client [] no_fields two_members) no_iso (\<lambda>s. s)
             [raw_email, raw_birth] [(''email'', Some True), (''birth'', Some False)])
          = Inl (Exception (field_unavailable p)))"
proof -
  have m: "\<exists>q\<in>set [(''email'', Some True), (''phone'', Some True), (''birth'', None)].
      snd q = Some True \<and> fst q \<notin> (\<lambda>r. (\<lambda>s. s) (rf_name r)) ` set [raw_email, raw_birth]"
    by (simp add: raw_email_def raw_birth_def)
  have n: "\<not> (\<exists>q\<in>set [(''email'', Some True), (''birth'', Some False)].
      snd q = Some True \<and> fst q \<notin> (\<lambda>r. (\<lambda>s. s) (rf_name r)) ` set [raw_email, raw_birth])"
    by (simp add: raw_email_def raw_birth_def)
  note t1 = sync_contacts_missing_field[of 3 "paged_client [] no_fields two_members" no_iso
      "\<lambda>s. s" "[raw_email, raw_birth]"
      "[(''email'', Some True), (''phone'', Some True), (''birth'', None)]"]
  note t2 = sync_contacts_missing_field[of 3 "paged_client [] no_fields two_members" no_iso
      "\<lambda>s. s" "[raw_email, raw_birth]" "[(''email'', Some True), (''birth'', Some False)]"]
  from t1 m have a: "\<exists>p. snd (sync_contacts 3 (paged_client [] no_fields two_members) no_iso (\<lambda>s. s)
             [raw_email, raw_birth]
             [(''email'', Some True), (''phone'', Some True), (''birth'', None)])
          = Inl (Exception (field_unavailable p))"
    by blast
  with t1 have b: "fst (sync_contacts 3 (paged_client [] no_fields two_members) no_iso (\<lambda>s. s)
             [raw_email, raw_birth]
             [(''email'', Some True), (''phone'', Some True), (''birth'', None)]) = []"
    by blast
  from t2 n have c: "\<not> (\<exists>p. snd (sync_contacts 3 (paged_client [] no_fields two_members) no_iso (\<lambda>s. s)
             [raw_email, raw_birth] [(''email'', Some True), (''birth'', Some False)])
          = Inl (Exception (field_unavailable p)))"
    by blast
  from a b c show ?thesis by blast
qed

subsection \<open>Days and points in time\<close>

lemma day_length_pos: "0 < day_length"
  by (simp add: day_length_def)

lemma next_date_string:
  "to_date_string t = DateString x \<Longrightarrow> to_date_string (add_days t 1) = DateString (x + 1)"
proof -
  assume "to_date_string t = DateString x"
  then have x: "(instant t + utc_offset t) div day_length = x" by (simp add: to_date_string_def)
  have "instant t + day_length + utc_offset t = instant t + utc_offset t + day_length" by simp
  then have "(instant t + day_length + utc_offset t) div day_length
      = (instant t + utc_offset t) div day_length + 1"
    using day_length_pos by (simp only: div_add_self2)
  then show ?thesis using x by (simp add: to_date_string_def add_days_def)
qed

lemma parse_midnight: "pendulum_parse (DateString d) = midnight d"
  by (simp add: midnight_def)

lemma midnight_instant: "instant (midnight d) = d * day_length"
  by (simp add: midnight_def)

lemma midnight_string: "to_date_string (midnight d) = DateString d"
  using day_length_pos by (simp add: midnight_def to_date_string_def)

lemma midnight_next: "add_days (midnight d) 1 = midnight (d + 1)"
  by (simp add: midnight_def add_days_def algebra_simps)

lemma midnight_le: "(instant (midnight d) \<le> instant e) = (d \<le> last_day e)"
proof
  assume "instant (midnight d) \<le> instant e"
  then have "d * day_length \<le> instant e" by (simp add: midnight_instant)
  then have "(d * day_length) div day_length \<le> instant e div day_length"
    using day_length_pos by (intro zdiv_mono1) simp_all
  then show "d \<le> last_day e" using day_length_pos by (simp add: last_day_def)
next
  assume "d \<le> last_day e"
  then have "d * day_length \<le> (instant e div day_length) * day_length"
    using day_length_pos by (simp add: last_day_def)
  also have "\<dots> \<le> instant e"
    using day_length_pos pos_mod_sign[of day_length "instant e"]
      div_mult_mod_eq[of "instant e" day_length] by linarith
  finally show "instant (midnight d) \<le> instant e" by (simp add: midnight_instant)
qed

subsection \<open>Cells and checkpoints of the metric loops\<close>

lemma cells_append: "cells (xs @ ys) = cells xs @ cells ys"
  by (induction xs rule: cells.induct) auto

lemma checkpoints_append: "checkpoints (xs @ ys) = checkpoints xs @ checkpoints ys"
  by (induction xs rule: checkpoints.induct) auto

lemma poll_loop_waits: "\<forall>e\<in>set (fst (poll_loop cl job n data)). is_wait e"
proof (induction cl job n data rule: poll_loop.induct)
  case (1 cl job n data)
  show ?case
  proof (cases "n < 10")
    case False
    then show ?thesis by (simp add: poll_loop.simps[of cl job n data])
  next
    case True
    show ?thesis
    proof (cases "responses_get cl job (Suc n)")
      case (Inl msg)
      then show ?thesis using True by (simp add: poll_loop.simps[of cl job n data])
    next
      case (Inr d)
      show ?thesis
      proof (cases "d = DStr []")
        case False
        then show ?thesis using True Inr by (simp add: poll_loop.simps[of cl job n data])
      next
        case e: True
        have "\<forall>e\<in>set (fst (poll_loop cl job (Suc n) (Some d))). is_wait e"
          using "1.IH"[of d] True Inr e by simp
        then show ?thesis using True Inr e
          by (simp add: poll_loop.simps[of cl job n data] case_prod_beta)
      qed
    qed
  qed
qed

lemma waits_cells: "\<forall>e\<in>set xs. is_wait e \<Longrightarrow> cells xs = []"
  by (induction xs rule: cells.induct) auto

lemma waits_checkpoints: "\<forall>e\<in>set xs. is_wait e \<Longrightarrow> checkpoints xs = []"
  by (induction xs rule: checkpoints.induct) auto

text \<open>One call of \<^verbatim>\<open>sync_metric\<close>: the request that creates the job, then polls and
  sleeps, then at most one write of records.\<close>

lemma sync_metric_shape:
  "\<exists>ws rs. fst (sync_metric cl cid metric date) = ResponsesPost metric date cid # ws @ rs
     \<and> (\<forall>e\<in>set ws. is_wait e)
     \<and> (rs = [] \<or> (\<exists>ids. rs = [WriteRecords ''metrics'' (map (MetricRow date metric) ids)]))"
proof (cases "responses_post cl metric date cid")
  case (Inl msg)
  then show ?thesis by (simp add: sync_metric_def post_metric_def)
next
  case (Inr job)
  obtain ev r where p: "poll_loop cl job 0 None = (ev, r)" by (cases "poll_loop cl job 0 None")
  have w: "\<forall>e\<in>set ev. is_wait e" using poll_loop_waits[of cl job 0 None] p by simp
  show ?thesis
  proof (cases "\<exists>ids. r = Inr (Some (DObj (Some ids))) \<and> \<not> (length ids = 1 \<and> ids ! 0 = [])")
    case True
    then obtain ids where "r = Inr (Some (DObj (Some ids)))" "\<not> (length ids = 1 \<and> ids ! 0 = [])"
      by blast
    then have "fst (sync_metric cl cid metric date)
        = ResponsesPost metric date cid # ev @ [WriteRecords ''metrics'' (map (MetricRow date metric) ids)]"
      using Inr p by (simp add: sync_metric_def post_metric_def write_records_def)
    then show ?thesis using w by blast
  next
    case False
    then have "fst (sync_metric cl cid metric date) = ResponsesPost metric date cid # ev @ []"
      using Inr p
      by (auto simp: sync_metric_def post_metric_def write_records_def
          split: sum.splits option.splits poll_data.splits)
    then show ?thesis using w by blast
  qed
qed

lemma sync_metric_cells: "cells (fst (sync_metric cl cid metric date)) = [(cid, metric, date)]"
proof -
  obtain ws rs where s: "fst (sync_metric cl cid metric date) = ResponsesPost metric date cid # ws @ rs"
    and w: "\<forall>e\<in>set ws. is_wait e"
    and r: "rs = [] \<or> (\<exists>ids. rs = [WriteRecords ''metrics'' (map (MetricRow date metric) ids)])"
    using sync_metric_shape by blast
  from r have "cells rs = []" by auto
  then show ?thesis unfolding s using waits_cells[OF w] by (simp add: cells_append)
qed

lemma sync_metric_checkpoints: "checkpoints (fst (sync_metric cl cid metric date)) = []"
proof -
  obtain ws rs where s: "fst (sync_metric cl cid metric date) = ResponsesPost metric date cid # ws @ rs"
    and w: "\<forall>e\<in>set ws. is_wait e"
    and r: "rs = [] \<or> (\<exists>ids. rs = [WriteRecords ''metrics'' (map (MetricRow date metric) ids)])"
    using sync_metric_shape by blast
  from r have "checkpoints rs = []" by auto
  then show ?thesis unfolding s using waits_checkpoints[OF w] by (simp add: checkpoints_append)
qed

text \<open>One step of the date loop, as an equation on the pair that \<^verbatim>\<open>sync_metric\<close>
  returned.\<close>

lemma date_loop_stop:
  "\<not> instant t \<le> instant e \<Longrightarrow> date_loop cl c m cps mts e t st = ([], Inr st)"
  by (simp add: date_loop.simps[of cl c m cps mts e t st])

lemma date_loop_fail:
  "instant t \<le> instant e \<Longrightarrow> sync_metric cl c m (to_date_string t) = (ev, Inl err)
     \<Longrightarrow> date_loop cl c m cps mts e t st = (ev, Inl err)"
  by (simp add: date_loop.simps[of cl c m cps mts e t st])

lemma date_loop_step:
  "instant t \<le> instant e \<Longrightarrow> sync_metric cl c m (to_date_string t) = (ev, Inr u)
     \<Longrightarrow> date_loop cl c m cps mts e (add_days t 1)
           (write_metrics_state st cps mts (add_days t 1)) = (ev', r)
     \<Longrightarrow> date_loop cl c m cps mts e t st
           = (ev @ WriteState (write_metrics_state st cps mts (add_days t 1)) # ev', r)"
  by (simp add: date_loop.simps[of cl c m cps mts e t st])

lemma date_loop_cases [case_names stop fail step]:
  assumes "\<not> instant t \<le> instant e \<Longrightarrow> date_loop cl c m cps mts e t st = ([], Inr st) \<Longrightarrow> P"
      and "\<And>ev err. instant t \<le> instant e
             \<Longrightarrow> sync_metric cl c m (to_date_string t) = (ev, Inl err)
             \<Longrightarrow> date_loop cl c m cps mts e t st = (ev, Inl err) \<Longrightarrow> P"
      and "\<And>ev u ev' r. instant t \<le> instant e
             \<Longrightarrow> sync_metric cl c m (to_date_string t) = (ev, Inr u)
             \<Longrightarrow> date_loop cl c m cps mts e (add_days t 1)
                   (write_metrics_state st cps mts (add_days t 1)) = (ev', r)
             \<Longrightarrow> date_loop cl c m cps mts e t st
                   = (ev @ WriteState (write_metrics_state st cps mts (add_days t 1)) # ev', r)
             \<Longrightarrow> P"
  shows P
proof (cases "instant t \<le> instant e")
  case False
  then show ?thesis using assms(1) date_loop_stop by blast
next
  case True
  obtain ev x where s: "sync_metric cl c m (to_date_string t) = (ev, x)"
    by (cases "sync_metric cl c m (to_date_string t)")
  show ?thesis
  proof (cases x)
    case (Inl err)
    then show ?thesis using assms(2) True s date_loop_fail by blast
  next
    case (Inr u)
    obtain ev' r where
      "date_loop cl c m cps mts e (add_days t 1) (write_metrics_state st cps mts (add_days t 1))
         = (ev', r)"
      by (cases "date_loop cl c m cps mts e (add_days t 1)
                   (write_metrics_state st cps mts (add_days t 1))")
    then show ?thesis using assms(3) True s Inr date_loop_step by blast
  qed
qed

lemma date_loop_induct [consumes 0, case_names stop fail step]:
  assumes "\<And>t st. \<not> instant t \<le> instant e
             \<Longrightarrow> date_loop cl c m cps mts e t st = ([], Inr st) \<Longrightarrow> P t st"
      and "\<And>t st ev err. instant t \<le> instant e
             \<Longrightarrow> sync_metric cl c m (to_date_string t) = (ev, Inl err)
             \<Longrightarrow> date_loop cl c m cps mts e t st = (ev, Inl err) \<Longrightarrow> P t st"
      and "\<And>t st ev u ev' r. instant t \<le> instant e
             \<Longrightarrow> sync_metric cl c m (to_date_string t) = (ev, Inr u)
             \<Longrightarrow> date_loop cl c m cps mts e (add_days t 1)
                   (write_metrics_state st cps mts (add_days t 1)) = (ev', r)
             \<Longrightarrow> date_loop cl c m cps mts e t st
                   = (ev @ WriteState (write_metrics_state st cps mts (add_days t 1)) # ev', r)
             \<Longrightarrow> P (add_days t 1) (write_metrics_state st cps mts (add_days t 1)) \<Longrightarrow> P t st"
  shows "P t st"
proof (induction "nat (instant e - instant t + 1)" arbitrary: t st rule: less_induct)
  case (less t st)
  show ?case
  proof (rule date_loop_cases[of t e cl c m cps mts st])
    assume "\<not> instant t \<le> instant e" "date_loop cl c m cps mts e t st = ([], Inr st)"
    then show ?thesis by (rule assms(1))
  next
    fix ev err
    assume "instant t \<le> instant e" "sync_metric cl c m (to_date_string t) = (ev, Inl err)"
      "date_loop cl c m cps mts e t st = (ev, Inl err)"
    then show ?thesis by (rule assms(2))
  next
    fix ev u ev' r
    assume a: "instant t \<le> instant e" "sync_metric cl c m (to_date_string t) = (ev, Inr u)"
      "date_loop cl c m cps mts e (add_days t 1) (write_metrics_state st cps mts (add_days t 1))
         = (ev', r)"
      "date_loop cl c m cps mts e t st
         = (ev @ WriteState (write_metrics_state st cps mts (add_days t 1)) # ev', r)"
    have "nat (instant e - instant (add_days t 1) + 1) < nat (instant e - instant t + 1)"
      using a(1) day_length_pos by (simp add: add_days_def)
    then have "P (add_days t 1) (write_metrics_state st cps mts (add_days t 1))"
      by (rule less)
    with a show ?thesis by (rule assms(3))
  qed
qed

text \<open>The same for a loop that is entered at midnight UTC of a day \<open>d\<close>, as it is with a
  date parsed from the state: it goes through the days from \<open>d\<close> to the last day of
  \<open>e\<close>.\<close>

lemma day_loop_stop:
  "\<not> d \<le> last_day e \<Longrightarrow> date_loop cl c m cps mts e (midnight d) st = ([], Inr st)"
  by (simp add: date_loop_stop midnight_le)

lemma day_loop_fail:
  "d \<le> last_day e \<Longrightarrow> sync_metric cl c m (DateString d) = (ev, Inl err)
     \<Longrightarrow> date_loop cl c m cps mts e (midnight d) st = (ev, Inl err)"
  by (rule date_loop_fail) (simp_all add: midnight_le midnight_string)

lemma day_loop_step:
  "d \<le> last_day e \<Longrightarrow> sync_metric cl c m (DateString d) = (ev, Inr u)
     \<Longrightarrow> date_loop cl c m cps mts e (midnight (d + 1))
           (write_metrics_state st cps mts (midnight (d + 1))) = (ev', r)
     \<Longrightarrow> date_loop cl c m cps mts e (midnight d) st
           = (ev @ WriteState (write_metrics_state st cps mts (midnight (d + 1))) # ev', r)"
  using date_loop_step[of "midnight d" e cl c m ev u cps mts st ev' r]
  by (simp add: midnight_le midnight_string midnight_next)

lemma day_loop_cases [case_names stop fail step]:
  assumes "\<not> d \<le> last_day e \<Longrightarrow> date_loop cl c m cps mts e (midnight d) st = ([], Inr st) \<Longrightarrow> P"
      and "\<And>ev err. d \<le> last_day e \<Longrightarrow> sync_metric cl c m (DateString d) = (ev, Inl err)
             \<Longrightarrow> date_loop cl c m cps mts e (midnight d) st = (ev, Inl err) \<Longrightarrow> P"
      and "\<And>ev u ev' r. d \<le> last_day e \<Longrightarrow> sync_metric cl c m (DateString d) = (ev, Inr u)
             \<Longrightarrow> date_loop cl c m cps mts e (midnight (d + 1))
                   (write_metrics_state st cps mts (midnight (d + 1))) = (ev', r)
             \<Longrightarrow> date_loop cl c m cps mts e (midnight d) st
                   = (ev @ WriteState (write_metrics_state st cps mts (midnight (d + 1))) # ev', r)
             \<Longrightarrow> P"
  shows P
proof (cases "d \<le> last_day e")
  case False
  then show ?thesis using assms(1) day_loop_stop by blast
next
  case True
  obtain ev x where s: "sync_metric cl c m (DateString d) = (ev, x)"
    by (cases "sync_metric cl c m (DateString d)")
  show ?thesis
  proof (cases x)
    case (Inl err)
    then show ?thesis using assms(2) True s day_loop_fail by blast
  next
    case (Inr u)
    obtain ev' r where
      "date_loop cl c m cps mts e (midnight (d + 1))
         (write_metrics_state st cps mts (midnight (d + 1))) = (ev', r)"
      by (cases "date_loop cl c m cps mts e (midnight (d + 1))
                   (write_metrics_state st cps mts (midnight (d + 1)))")
    then show ?thesis using assms(3) True s Inr day_loop_step by blast
  qed
qed

lemma day_loop_induct [consumes 0, case_names stop fail step]:
  assumes "\<And>d st. \<not> d \<le> last_day e
             \<Longrightarrow> date_loop cl c m cps mts e (midnight d) st = ([], Inr st) \<Longrightarrow> P d st"
      and "\<And>d st ev err. d \<le> last_day e \<Longrightarrow> sync_metric cl c m (DateString d) = (ev, Inl err)
             \<Longrightarrow> date_loop cl c m cps mts e (midnight d) st = (ev, Inl err) \<Longrightarrow> P d st"
      and "\<And>d st ev u ev' r. d \<le> last_day e \<Longrightarrow> sync_metric cl c m (DateString d) = (ev, Inr u)
             \<Longrightarrow> date_loop cl c m cps mts e (midnight (d + 1))
                   (write_metrics_state st cps mts (midnight (d + 1))) = (ev', r)
             \<Longrightarrow> date_loop cl c m cps mts e (midnight d) st
                   = (ev @ WriteState (write_metrics_state st cps mts (midnight (d + 1))) # ev', r)
             \<Longrightarrow> P (d + 1) (write_metrics_state st cps mts (midnight (d + 1))) \<Longrightarrow> P d st"
  shows "P d st"
proof (induction "nat (last_day e - d + 1)" arbitrary: d st)
  case (0 d st)
  then have nd: "\<not> d \<le> last_day e" by simp
  show ?case by (rule assms(1)[OF nd day_loop_stop[OF nd]])
next
  case (Suc n d st)
  then have le: "d \<le> last_day e" by simp
  have n: "n = nat (last_day e - (d + 1) + 1)" using Suc(2) by simp
  show ?case
  proof (rule day_loop_cases[of d e cl c m cps mts st])
    assume "\<not> d \<le> last_day e"
    then show ?thesis using le by simp
  next
    fix ev err
    assume "d \<le> last_day e" "sync_metric cl c m (DateString d) = (ev, Inl err)"
      "date_loop cl c m cps mts e (midnight d) st = (ev, Inl err)"
    then show ?thesis by (rule assms(2))
  next
    fix ev u ev' r
    assume a: "d \<le> last_day e" "sync_metric cl c m (DateString d) = (ev, Inr u)"
      "date_loop cl c m cps mts e (midnight (d + 1))
         (write_metrics_state st cps mts (midnight (d + 1))) = (ev', r)"
      "date_loop cl c m cps mts e (midnight d) st
         = (ev @ WriteState (write_metrics_state st cps mts (midnight (d + 1))) # ev', r)"
    have "P (d + 1) (write_metrics_state st cps mts (midnight (d + 1)))" by (rule Suc(1)[OF n])
    with a show ?thesis by (rule assms(3))
  qed
qed

lemma day_loop_cells:
  "set (cells (fst (date_loop cl c m cps mts e (midnight d) st)))
     \<subseteq> {(c, m, DateString x) | x. d \<le> x \<and> x \<le> last_day e}"
proof (induction d st rule: day_loop_induct[of e cl c m cps mts])
  case (stop d st)
  then show ?case by simp
next
  case (fail d st ev err)
  then show ?case using sync_metric_cells[of cl c m "DateString d"] by auto
next
  case (step d st ev u ev' r)
  have "cells ev = [(c, m, DateString d)]"
    using sync_metric_cells[of cl c m "DateString d"] step(2) by simp
  then have "cells (fst (date_loop cl c m cps mts e (midnight d) st))
      = (c, m, DateString d) # cells ev'"
    using step(4) by (simp add: cells_append)
  moreover have "set (cells ev') \<subseteq> {(c, m, DateString x) | x. d + 1 \<le> x \<and> x \<le> last_day e}"
    using step(5) step(3) by simp
  ultimately show ?case using step(1) by auto
qed

lemma day_loop_first_cell:
  "d \<le> last_day e
     \<Longrightarrow> take 1 (cells (fst (date_loop cl c m cps mts e (midnight d) st))) = [(c, m, DateString d)]"
proof (cases rule: day_loop_cases[of d e cl c m cps mts st])
  case stop
  assume "d \<le> last_day e"
  with stop show ?thesis by simp
next
  case (fail ev err)
  then show ?thesis using sync_metric_cells[of cl c m "DateString d"] by simp
next
  case (step ev u ev' r)
  have "cells ev = [(c, m, DateString d)]"
    using sync_metric_cells[of cl c m "DateString d"] step(2) by simp
  then show ?thesis using step(4) by (simp add: cells_append)
qed

lemma day_loop_no_cell:
  "last_day e < d \<Longrightarrow> cells (fst (date_loop cl c m cps mts e (midnight d) st)) = []"
  by (simp add: day_loop_stop)

text \<open>The run of a restart whose checkpoint holds one campaign and one metric: the date
  loop of that cell, and nothing after it.\<close>

lemma single_resume_trace:
  assumes "campaigns_to_resume (state c) = Some [cid]"
      and "metrics_to_resume (state c) = Some [m]"
      and "date_to_resume (state c) = Some (DateString d)"
  shows "fst (sync_metrics c campaigns)
       = fst (date_loop (api c) cid m [cid] (metrics_selected_of c) (end_date_of c) (midnight d)
                (state c))"
proof -
  obtain T r where dl: "date_loop (api c) cid m [cid] (metrics_selected_of c) (end_date_of c)
      (midnight d) (state c) = (T, r)"
    by (cases "date_loop (api c) cid m [cid] (metrics_selected_of c) (end_date_of c)
                 (midnight d) (state c)")
  have loops: "fst (sync_metrics_loops c campaigns) = T"
    using assms dl
    by (cases r)
       (simp_all add: sync_metrics_loops_def resume_or_start_def dates_while_def parse_midnight
          del: pendulum_parse.simps)
  show ?thesis unfolding dl
    using loops
    by (cases "sync_metrics_loops c campaigns")
       (auto simp: sync_metrics_def finish_metrics_raises split: sum.splits)
qed

text \<open>
  C6. From a state whose checkpoint is campaigns \<open>[5]\<close>, metrics \<open>[click]\<close> and date
  2021-03-02, the first cell a restarted \<^verbatim>\<open>sync_metrics\<close> processes is campaign 5,
  metric click, date 2021-03-02, whatever the configured start date, the campaigns passed
  in and the selected metrics are (there is a first cell exactly when the end date is not
  before 2021-03-02T00:00:00Z, the parsed date of the checkpoint); every cell of the run is
  of campaign 5 and metric click, of a day from that date on whose midnight UTC is not
  after the end date.
\<close>

theorem restart_first_cell:
  assumes "campaigns_to_resume (state c) = Some [''5'']"
      and "metrics_to_resume (state c) = Some [''click'']"
      and "date_to_resume (state c) = Some (DateString day_2021_03_02)"
  shows "(instant (pendulum_parse (DateString day_2021_03_02)) \<le> instant (end_date_of c) \<longrightarrow>
            take 1 (cells (fst (sync_metrics c campaigns)))
              = [(''5'', ''click'', DateString day_2021_03_02)])
       \<and> (instant (end_date_of c) < instant (pendulum_parse (DateString day_2021_03_02)) \<longrightarrow>
            cells (fst (sync_metrics c campaigns)) = [])
       \<and> set (cells (fst (sync_metrics c campaigns)))
           \<subseteq> {(''5'', ''click'', DateString x) | x.
                day_2021_03_02 \<le> x
                \<and> instant (pendulum_parse (DateString x)) \<le> instant (end_date_of c)}"
proof (intro conjI impI)
  assume "instant (pendulum_parse (DateString day_2021_03_02)) \<le> instant (end_date_of c)"
  then have "day_2021_03_02 \<le> last_day (end_date_of c)"
    by (simp only: parse_midnight midnight_le)
  then show "take 1 (cells (fst (sync_metrics c campaigns)))
              = [(''5'', ''click'', DateString day_2021_03_02)]"
    unfolding single_resume_trace[OF assms] by (rule day_loop_first_cell)
next
  assume "instant (end_date_of c) < instant (pendulum_parse (DateString day_2021_03_02))"
  then have "\<not> instant (midnight day_2021_03_02) \<le> instant (end_date_of c)"
    by (simp only: parse_midnight not_le)
  then have "last_day (end_date_of c) < day_2021_03_02" by (simp only: midnight_le not_le)
  then show "cells (fst (sync_metrics c campaigns)) = []"
    unfolding single_resume_trace[OF assms] by (rule day_loop_no_cell)
next
  show "set (cells (fst (sync_metrics c campaigns)))
           \<subseteq> {(''5'', ''click'', DateString x) | x.
                day_2021_03_02 \<le> x
                \<and> instant (pendulum_parse (DateString x)) \<le> instant (end_date_of c)}"
    unfolding single_resume_trace[OF assms]
    using day_loop_cells[of "api c" "''5''" "''click''" "[''5'']" "metrics_selected_of c"
        "end_date_of c" day_2021_03_02 "state c"]
    by (simp only: parse_midnight midnight_le)
qed

theorem restart_first_cell_witness:
  "take 1 (cells (fst (sync_metrics restart_ctx [campaign_1, campaign_2])))
     = [(''5'', ''click'', DateString day_2021_03_02)]
   \<and> cells (fst (sync_metrics restart_ctx [campaign_1, campaign_2]))
     = [(''5'', ''click'', DateString day_2021_03_02), (''5'', ''click'', DateString day_2021_03_03)]"
proof -
  have h1: "campaigns_to_resume (state restart_ctx) = Some [''5'']"
    by (simp add: restart_ctx_def checkpoint_5_click_def)
  have h2: "metrics_to_resume (state restart_ctx) = Some [''click'']"
    by (simp add: restart_ctx_def checkpoint_5_click_def)
  have h3: "date_to_resume (state restart_ctx) = Some (DateString day_2021_03_02)"
    by (simp add: restart_ctx_def checkpoint_5_click_def)
  have h4: "instant (pendulum_parse (DateString day_2021_03_02)) \<le> instant (end_date_of restart_ctx)"
    by (simp add: restart_ctx_def end_date_of_def example_defs day_length_def)
  have a: "take 1 (cells (fst (sync_metrics restart_ctx [campaign_1, campaign_2])))
     = [(''5'', ''click'', DateString day_2021_03_02)]"
    using restart_first_cell[OF h1 h2 h3, of "[campaign_1, campaign_2]"] h4 by blast
  have b: "cells (fst (sync_metrics restart_ctx [campaign_1, campaign_2]))
     = [(''5'', ''click'', DateString day_2021_03_02), (''5'', ''click'', DateString day_2021_03_03)]"
    by (simp add: restart_ctx_def checkpoint_5_click_def example_defs run_defs)
  from a b show ?thesis by simp
qed

subsection \<open>A fresh start after a completed pass\<close>

text \<open>
  C4. The claim is that a fresh start (no campaigns to resume) begins at the later of the
  configured start date and the recorded \<^verbatim>\<open>last_metric_date\<close>. On the code, line 208
  assigns the recorded text to \<^verbatim>\<open>start_date\<close> as it is, where line 216 parses the
  other date of the bookmark, and line 232 then compares that text with \<^verbatim>\<open>end_date\<close>:
  whenever a \<^verbatim>\<open>last_metric_date\<close> is recorded and there is a live campaign and a
  selected metric, the run ends in \<^verbatim>\<open>TypeError\<close> at the first test of the loop,
  before any request, record or state write, whatever the two dates are.
\<close>

theorem fresh_start_bookmark_raises:
  assumes "\<not> truthy (campaigns_to_resume (state c))"
      and "last_metric_date (state c) = Some s"
      and "filter (\<lambda>x. deleted x = None) campaigns \<noteq> []"
      and "metrics_selected_of c \<noteq> []"
  shows "sync_metrics c campaigns
           = ([], Inl (TypeError ''<= not supported between str and DateTime''))"
proof -
  obtain live lives where live: "filter (\<lambda>x. deleted x = None) campaigns = live # lives"
    using assms(3) by (cases "filter (\<lambda>x. deleted x = None) campaigns") auto
  obtain m ms where ms: "metrics_selected_of c = m # ms"
    using assms(4) by (cases "metrics_selected_of c") auto
  have sd: "start_date_of c = PStr s" using assms(2) by (simp add: start_date_of_def)
  have "sync_metrics_loops c campaigns
      = ([], Inl (TypeError ''<= not supported between str and DateTime''))"
    using assms(1) live ms sd
    by (simp add: sync_metrics_loops_def resume_or_start_def dates_while_def)
  then show ?thesis by (simp add: sync_metrics_def)
qed

theorem fresh_start_bookmark_raises_witness:
  "last_metric_date (state bookmarked_ctx) = Some (DateString day_2021_03_01)
   \<and> config_start_date bookmarked_ctx = Some (pendulum_parse (DateString day_2021_03_02))
   \<and> sync_metrics bookmarked_ctx [campaign_1]
       = ([], Inl (TypeError ''<= not supported between str and DateTime''))
   \<and> cells (fst (sync_metrics bookmarked_ctx [campaign_1])) = []"
proof -
  have h1: "\<not> truthy (campaigns_to_resume (state bookmarked_ctx))"
    by (simp add: bookmarked_ctx_def example_defs)
  have h2: "last_metric_date (state bookmarked_ctx) = Some (DateString day_2021_03_01)"
    by (simp add: bookmarked_ctx_def example_defs)
  have h3: "filter (\<lambda>x. deleted x = None) [campaign_1] \<noteq> []"
    by (simp add: campaign_1_def)
  have h4: "metrics_selected_of bookmarked_ctx \<noteq> []"
    by (simp add: bookmarked_ctx_def example_defs metrics_selected_of_def)
  have h5: "config_start_date bookmarked_ctx = Some (pendulum_parse (DateString day_2021_03_02))"
    by (simp add: bookmarked_ctx_def example_defs)
  note t = fresh_start_bookmark_raises[OF h1 h2 h3 h4]
  from t h2 h5 show ?thesis by simp
qed

subsection \<open>Where a checkpoint sits in a trace\<close>

lemma split_at_checkpoint:
  "checkpoints ev = [] \<Longrightarrow> pre @ WriteState K # post = ev @ WriteState K1 # ev'
     \<Longrightarrow> (pre = ev \<and> K = K1 \<and> post = ev')
         \<or> (\<exists>pre'. pre = ev @ WriteState K1 # pre' \<and> ev' = pre' @ WriteState K # post)"
proof (induction ev arbitrary: pre)
  case Nil
  then show ?case by (cases pre) auto
next
  case (Cons a ev)
  have na: "\<And>K. a \<noteq> WriteState K" and ce: "checkpoints ev = []"
    using Cons.prems(1) by (cases a; auto)+
  show ?case
  proof (cases pre)
    case Nil
    then show ?thesis using Cons.prems(2) na by auto
  next
    case (Cons p pre1)
    then have "p = a" "pre1 @ WriteState K # post = ev @ WriteState K1 # ev'"
      using Cons.prems(2) by auto
    then show ?thesis using Cons.IH[OF ce, of pre1] Cons by auto
  qed
qed

lemma split_in_append:
  "pre @ x # post = A @ B
     \<Longrightarrow> (\<exists>post1. A = pre @ x # post1 \<and> post = post1 @ B)
         \<or> (\<exists>pre2. pre = A @ pre2 \<and> B = pre2 @ x # post)"
proof (induction A arbitrary: pre)
  case Nil
  then show ?case by auto
next
  case (Cons a A)
  show ?case
  proof (cases pre)
    case Nil
    then show ?thesis using Cons.prems by auto
  next
    case (Cons p pre1)
    then have "p = a" "pre1 @ x # post = A @ B" using Cons.prems by auto
    then show ?thesis using Cons.IH[of pre1] Cons by auto
  qed
qed

lemma no_checkpoint_no_split: "checkpoints T = [] \<Longrightarrow> T \<noteq> pre @ WriteState K # post"
  by (auto simp: checkpoints_append)

subsection \<open>A cell that returned\<close>



subsection \<open>The cell before a checkpoint\<close>

text \<open>Every checkpoint in the trace of the date loop comes right after the events of a
  call of \<^verbatim>\<open>sync_metric\<close> that returned, and records the lists the loop was given and
  the day after that cell's.\<close>

lemma date_loop_checkpoint:
  "fst (date_loop cl c m cps mts e t st) = pre @ WriteState K # post
     \<Longrightarrow> \<exists>pre' ev x. pre = pre' @ ev \<and> sync_metric cl c m (DateString x) = (ev, Inr ())
           \<and> campaigns_to_resume K = Some cps \<and> metrics_to_resume K = Some mts
           \<and> date_to_resume K = Some (DateString (x + 1))"
proof (induction t st arbitrary: pre rule: date_loop_induct[of e cl c m cps mts])
  case (stop t st)
  then show ?case by simp
next
  case (fail t st ev err)
  have "checkpoints ev = []"
    using sync_metric_checkpoints[of cl c m "to_date_string t"] fail(2) by simp
  moreover have "ev = pre @ WriteState K # post" using fail(3) fail.prems by simp
  ultimately show ?case using no_checkpoint_no_split[of ev pre K post] by simp
next
  case (step t st ev u ev' r)
  define K1 where "K1 = write_metrics_state st cps mts (add_days t 1)"
  obtain x where x: "to_date_string t = DateString x" by (cases "to_date_string t")
  have x1: "to_date_string (add_days t 1) = DateString (x + 1)" by (rule next_date_string[OF x])
  have ce: "checkpoints ev = []"
    using sync_metric_checkpoints[of cl c m "to_date_string t"] step(2) by simp
  have "pre @ WriteState K # post = ev @ WriteState K1 # ev'"
    using step(4) step.prems by (simp add: K1_def)
  from split_at_checkpoint[OF ce this]
  consider (here) "pre = ev" "K = K1" "post = ev'"
    | (later) pre2 where "pre = ev @ WriteState K1 # pre2" "ev' = pre2 @ WriteState K # post"
    by blast
  then show ?case
  proof cases
    case here
    have "pre = [] @ ev \<and> sync_metric cl c m (DateString x) = (ev, Inr ())
           \<and> campaigns_to_resume K = Some cps \<and> metrics_to_resume K = Some mts
           \<and> date_to_resume K = Some (DateString (x + 1))"
      using here step(2) x x1 by (simp add: K1_def write_metrics_state_def)
    then show ?thesis by blast
  next
    case later
    have "fst (date_loop cl c m cps mts e (add_days t 1) K1) = pre2 @ WriteState K # post"
      using step(3) later(2) by (simp add: K1_def)
    from step(5)[OF this[unfolded K1_def]]
    obtain pre3 ev3 y where y: "pre2 = pre3 @ ev3"
      "sync_metric cl c m (DateString y) = (ev3, Inr ())"
      "campaigns_to_resume K = Some cps" "metrics_to_resume K = Some mts"
      "date_to_resume K = Some (DateString (y + 1))"
      by blast
    have "pre = (ev @ WriteState K1 # pre3) @ ev3" using later(1) y(1) by simp
    with y show ?thesis by blast
  qed
qed

lemma dates_while_checkpoint:
  "fst (dates_while cl c m cps mts e cur st) = pre @ WriteState K # post
     \<Longrightarrow> \<exists>pre' ev x. pre = pre' @ ev \<and> sync_metric cl c m (DateString x) = (ev, Inr ())
           \<and> campaigns_to_resume K = Some cps \<and> metrics_to_resume K = Some mts
           \<and> date_to_resume K = Some (DateString (x + 1))"
proof (cases cur)
  case (PDate t)
  assume "fst (dates_while cl c m cps mts e cur st) = pre @ WriteState K # post"
  then have "fst (date_loop cl c m cps mts e t st) = pre @ WriteState K # post"
    using PDate by (simp add: dates_while_def)
  then show ?thesis by (rule date_loop_checkpoint)
next
  case (PStr s)
  assume "fst (dates_while cl c m cps mts e cur st) = pre @ WriteState K # post"
  then show ?thesis using PStr by (simp add: dates_while_def)
qed

lemma metric_loop_cases [case_names fail gone continue]:
  assumes "\<And>ev err.
             dates_while cl c m cps mts e (case ld of Some d \<Rightarrow> PDate d | None \<Rightarrow> start) st
               = (ev, Inl err)
             \<Longrightarrow> metric_loop cl c cps e start (m # rest) mts ld st = (ev, Inl err) \<Longrightarrow> P"
      and "\<And>ev st'.
             dates_while cl c m cps mts e (case ld of Some d \<Rightarrow> PDate d | None \<Rightarrow> start) st
               = (ev, Inr st')
             \<Longrightarrow> m \<notin> set mts
             \<Longrightarrow> metric_loop cl c cps e start (m # rest) mts ld st
                   = (ev, Inl (ValueError ''list.remove(x): x not in list'')) \<Longrightarrow> P"
      and "\<And>ev st' ev' r.
             dates_while cl c m cps mts e (case ld of Some d \<Rightarrow> PDate d | None \<Rightarrow> start) st
               = (ev, Inr st')
             \<Longrightarrow> m \<in> set mts
             \<Longrightarrow> metric_loop cl c cps e start rest (remove1 m mts) None st' = (ev', r)
             \<Longrightarrow> metric_loop cl c cps e start (m # rest) mts ld st = (ev @ ev', r) \<Longrightarrow> P"
  shows P
proof -
  obtain ev x where dw:
    "dates_while cl c m cps mts e (case ld of Some d \<Rightarrow> PDate d | None \<Rightarrow> start) st = (ev, x)"
    by (cases "dates_while cl c m cps mts e (case ld of Some d \<Rightarrow> PDate d | None \<Rightarrow> start) st")
  show P
  proof (cases x)
    case (Inl err)
    then show P using assms(1)[of ev err] dw by simp
  next
    case (Inr st')
    show P
    proof (cases "m \<in> set mts")
      case False
      then show P using assms(2)[of ev st'] dw Inr by simp
    next
      case True
      obtain ev' r where "metric_loop cl c cps e start rest (remove1 m mts) None st' = (ev', r)"
        by (cases "metric_loop cl c cps e start rest (remove1 m mts) None st'")
      then show P using assms(3)[of ev st' ev' r] dw Inr True by simp
    qed
  qed
qed

text \<open>In the metric loop, the checkpoint that follows a cell of the \<open>j\<close>-th metric of the
  list records the list \<^verbatim>\<open>metrics_to_resume\<close> less the first \<open>j\<close> metrics of the
  list, which the loop has finished by then.\<close>

lemma metric_loop_checkpoint:
  "fst (metric_loop cl c cps e start ms mts ld st) = pre @ WriteState K # post
     \<Longrightarrow> \<exists>pre' ev j x. pre = pre' @ ev \<and> j < length ms
           \<and> sync_metric cl c (ms ! j) (DateString x) = (ev, Inr ())
           \<and> campaigns_to_resume K = Some cps
           \<and> metrics_to_resume K = Some (fold remove1 (take j ms) mts)
           \<and> date_to_resume K = Some (DateString (x + 1))"
proof (induction ms arbitrary: mts ld st pre)
  case Nil
  then show ?case by simp
next
  case (Cons m rest)
  define cur where "cur = (case ld of Some d \<Rightarrow> PDate d | None \<Rightarrow> start)"
  have in_dates: "\<exists>pre' ev j x. p = pre' @ ev \<and> j < length (m # rest)
           \<and> sync_metric cl c ((m # rest) ! j) (DateString x) = (ev, Inr ())
           \<and> campaigns_to_resume K = Some cps
           \<and> metrics_to_resume K = Some (fold remove1 (take j (m # rest)) mts)
           \<and> date_to_resume K = Some (DateString (x + 1))"
    if dw: "fst (dates_while cl c m cps mts e cur st) = p @ WriteState K # q" for p q
  proof -
    from dates_while_checkpoint[OF dw]
    obtain pre' ev x where a: "p = pre' @ ev" "sync_metric cl c m (DateString x) = (ev, Inr ())"
      "campaigns_to_resume K = Some cps" "metrics_to_resume K = Some mts"
      "date_to_resume K = Some (DateString (x + 1))"
      by blast
    have "p = pre' @ ev \<and> 0 < length (m # rest)
           \<and> sync_metric cl c ((m # rest) ! 0) (DateString x) = (ev, Inr ())
           \<and> campaigns_to_resume K = Some cps
           \<and> metrics_to_resume K = Some (fold remove1 (take 0 (m # rest)) mts)
           \<and> date_to_resume K = Some (DateString (x + 1))"
      using a by simp
    then show ?thesis by blast
  qed
  show ?case
  proof (cases rule: metric_loop_cases[of cl c m cps mts e start ld st rest])
    case (fail ev err)
    then have "fst (dates_while cl c m cps mts e cur st) = pre @ WriteState K # post"
      using Cons.prems by (simp add: cur_def)
    then show ?thesis by (rule in_dates)
  next
    case (gone ev st')
    then have "fst (dates_while cl c m cps mts e cur st) = pre @ WriteState K # post"
      using Cons.prems by (simp add: cur_def)
    then show ?thesis by (rule in_dates)
  next
    case (continue ev st' ev' r)
    have T: "pre @ WriteState K # post = ev @ ev'" using continue(4) Cons.prems by simp
    from split_in_append[OF T]
    consider (dates) post1 where "ev = pre @ WriteState K # post1"
      | (later) pre2 where "pre = ev @ pre2" "ev' = pre2 @ WriteState K # post"
      by blast
    then show ?thesis
    proof cases
      case dates
      then have "fst (dates_while cl c m cps mts e cur st) = pre @ WriteState K # post1"
        using continue(1) by (simp add: cur_def)
      then show ?thesis by (rule in_dates)
    next
      case later
      have "fst (metric_loop cl c cps e start rest (remove1 m mts) None st')
          = pre2 @ WriteState K # post"
        using continue(3) later(2) by simp
      from Cons.IH[OF this]
      obtain pre3 ev3 j x where a: "pre2 = pre3 @ ev3" "j < length rest"
        "sync_metric cl c (rest ! j) (DateString x) = (ev3, Inr ())"
        "campaigns_to_resume K = Some cps"
        "metrics_to_resume K = Some (fold remove1 (take j rest) (remove1 m mts))"
        "date_to_resume K = Some (DateString (x + 1))"
        by blast
      have "pre = (ev @ pre3) @ ev3 \<and> Suc j < length (m # rest)
           \<and> sync_metric cl c ((m # rest) ! Suc j) (DateString x) = (ev3, Inr ())
           \<and> campaigns_to_resume K = Some cps
           \<and> metrics_to_resume K = Some (fold remove1 (take (Suc j) (m # rest)) mts)
           \<and> date_to_resume K = Some (DateString (x + 1))"
        using a later(1) by simp
      then show ?thesis by blast
    qed
  qed
qed

lemma campaign_loop_cases [case_names fail continue]:
  assumes "\<And>ev err. metric_loop cl cid (cid # rest) e start ms full ld st = (ev, Inl err)
             \<Longrightarrow> campaign_loop cl full e start (cid # rest) (cid # rest) (Some ms) ld st
                   = (ev, Inl err) \<Longrightarrow> P"
      and "\<And>ev ld' st' ev' r.
             metric_loop cl cid (cid # rest) e start ms full ld st = (ev, Inr (ld', st'))
             \<Longrightarrow> campaign_loop cl full e start rest rest (Some full) ld' st' = (ev', r)
             \<Longrightarrow> campaign_loop cl full e start (cid # rest) (cid # rest) (Some ms) ld st
                   = (ev @ ev', r) \<Longrightarrow> P"
  shows P
proof -
  obtain ev x where ml: "metric_loop cl cid (cid # rest) e start ms full ld st = (ev, x)"
    by (cases "metric_loop cl cid (cid # rest) e start ms full ld st")
  show P
  proof (cases x)
    case (Inl err)
    then show P using assms(1)[of ev err] ml by simp
  next
    case (Inr p)
    obtain ld' st' where p: "p = (ld', st')" by (cases p)
    obtain ev' r where "campaign_loop cl full e start rest rest (Some full) ld' st' = (ev', r)"
      by (cases "campaign_loop cl full e start rest rest (Some full) ld' st'")
    then show P using assms(2)[of ev ld' st' ev' r] ml Inr p by simp
  qed
qed

text \<open>In the campaign loop, entered with \<^verbatim>\<open>campaigns_to_resume\<close> a copy of the
  campaigns to process: the checkpoint that follows a cell of the \<open>i\<close>-th campaign records
  the campaigns from the \<open>i\<close>-th on. The first campaign goes through the metrics \<open>ms\<close> it
  was entered with, the others through all the selected metrics.\<close>

lemma campaign_loop_checkpoint:
  "fst (campaign_loop cl full e start ids ids (Some ms) ld st) = pre @ WriteState K # post
     \<Longrightarrow> \<exists>pre' ev i j x. pre = pre' @ ev \<and> i < length ids
           \<and> j < length (if i = 0 then ms else full)
           \<and> sync_metric cl (ids ! i) ((if i = 0 then ms else full) ! j) (DateString x)
               = (ev, Inr ())
           \<and> campaigns_to_resume K = Some (drop i ids)
           \<and> metrics_to_resume K
               = Some (fold remove1 (take j (if i = 0 then ms else full)) full)
           \<and> date_to_resume K = Some (DateString (x + 1))"
proof (induction ids arbitrary: ms ld st pre)
  case Nil
  then show ?case by simp
next
  case (Cons cid rest)
  have in_metrics: "\<exists>pre' ev i j x. p = pre' @ ev \<and> i < length (cid # rest)
           \<and> j < length (if i = 0 then ms else full)
           \<and> sync_metric cl ((cid # rest) ! i) ((if i = 0 then ms else full) ! j) (DateString x)
               = (ev, Inr ())
           \<and> campaigns_to_resume K = Some (drop i (cid # rest))
           \<and> metrics_to_resume K
               = Some (fold remove1 (take j (if i = 0 then ms else full)) full)
           \<and> date_to_resume K = Some (DateString (x + 1))"
    if ml: "fst (metric_loop cl cid (cid # rest) e start ms full ld st) = p @ WriteState K # q"
    for p q
  proof -
    from metric_loop_checkpoint[OF ml]
    obtain pre' ev j x where a: "p = pre' @ ev" "j < length ms"
      "sync_metric cl cid (ms ! j) (DateString x) = (ev, Inr ())"
      "campaigns_to_resume K = Some (cid # rest)"
      "metrics_to_resume K = Some (fold remove1 (take j ms) full)"
      "date_to_resume K = Some (DateString (x + 1))"
      by blast
    have "p = pre' @ ev \<and> (0::nat) < length (cid # rest)
           \<and> j < length (if (0::nat) = 0 then ms else full)
           \<and> sync_metric cl ((cid # rest) ! 0) ((if (0::nat) = 0 then ms else full) ! j)
               (DateString x) = (ev, Inr ())
           \<and> campaigns_to_resume K = Some (drop 0 (cid # rest))
           \<and> metrics_to_resume K
               = Some (fold remove1 (take j (if (0::nat) = 0 then ms else full)) full)
           \<and> date_to_resume K = Some (DateString (x + 1))"
      using a by simp
    then show ?thesis by blast
  qed
  show ?case
  proof (cases rule: campaign_loop_cases[of cl cid rest e start ms full ld st])
    case (fail ev err)
    then have "fst (metric_loop cl cid (cid # rest) e start ms full ld st)
        = pre @ WriteState K # post"
      using Cons.prems by simp
    then show ?thesis by (rule in_metrics)
  next
    case (continue ev ld' st' ev' r)
    have T: "pre @ WriteState K # post = ev @ ev'" using continue(3) Cons.prems by simp
    from split_in_append[OF T]
    consider (metrics) post1 where "ev = pre @ WriteState K # post1"
      | (later) pre2 where "pre = ev @ pre2" "ev' = pre2 @ WriteState K # post"
      by blast
    then show ?thesis
    proof cases
      case metrics
      then have "fst (metric_loop cl cid (cid # rest) e start ms full ld st)
          = pre @ WriteState K # post1"
        using continue(1) by simp
      then show ?thesis by (rule in_metrics)
    next
      case later
      have "fst (campaign_loop cl full e start rest rest (Some full) ld' st')
          = pre2 @ WriteState K # post"
        using continue(2) later(2) by simp
      from Cons.IH[OF this]
      obtain pre3 ev3 i j x where a: "pre2 = pre3 @ ev3" "i < length rest"
        "j < length (if i = 0 then full else full)"
        "sync_metric cl (rest ! i) ((if i = 0 then full else full) ! j) (DateString x)
           = (ev3, Inr ())"
        "campaigns_to_resume K = Some (drop i rest)"
        "metrics_to_resume K = Some (fold remove1 (take j (if i = 0 then full else full)) full)"
        "date_to_resume K = Some (DateString (x + 1))"
        by blast
      have "pre = (ev @ pre3) @ ev3 \<and> Suc i < length (cid # rest)
           \<and> j < length (if Suc i = 0 then ms else full)
           \<and> sync_metric cl ((cid # rest) ! Suc i) ((if Suc i = 0 then ms else full) ! j)
               (DateString x) = (ev3, Inr ())
           \<and> campaigns_to_resume K = Some (drop (Suc i) (cid # rest))
           \<and> metrics_to_resume K
               = Some (fold remove1 (take j (if Suc i = 0 then ms else full)) full)
           \<and> date_to_resume K = Some (DateString (x + 1))"
        using a later(1) by simp
      then show ?thesis by blast
    qed
  qed
qed

lemma sync_metrics_trace: "fst (sync_metrics c campaigns) = fst (sync_metrics_loops c campaigns)"
  by (cases "sync_metrics_loops c campaigns")
     (auto simp: sync_metrics_def finish_metrics_raises split: sum.splits)

text \<open>The same for a run of \<^verbatim>\<open>sync_metrics\<close>, with the campaigns, the metrics of the
  first campaign and the first date that lines 210 to 224 give.\<close>

lemma sync_metrics_checkpoint:
  assumes "fst (sync_metrics c campaigns) = pre @ WriteState K # post"
  shows "\<exists>ids ms ld pre' ev i j x. resume_or_start c campaigns = (ids, Some ms, ld)
           \<and> pre = pre' @ ev \<and> i < length ids
           \<and> j < length (if i = 0 then ms else metrics_selected_of c)
           \<and> sync_metric (api c) (ids ! i) ((if i = 0 then ms else metrics_selected_of c) ! j)
               (DateString x) = (ev, Inr ())
           \<and> campaigns_to_resume K = Some (drop i ids)
           \<and> metrics_to_resume K
               = Some (fold remove1 (take j (if i = 0 then ms else metrics_selected_of c))
                         (metrics_selected_of c))
           \<and> date_to_resume K = Some (DateString (x + 1))"
proof -
  obtain ids cm ld where rs: "resume_or_start c campaigns = (ids, cm, ld)"
    by (cases "resume_or_start c campaigns")
  have T: "fst (campaign_loop (api c) (metrics_selected_of c) (end_date_of c) (start_date_of c)
                  ids ids cm ld (state c)) = pre @ WriteState K # post"
    using assms rs by (simp add: sync_metrics_trace sync_metrics_loops_def)
  obtain ms where cm: "cm = Some ms"
  proof (cases cm)
    case None
    then have "fst (campaign_loop (api c) (metrics_selected_of c) (end_date_of c)
                      (start_date_of c) ids ids cm ld (state c)) = []"
      by (cases ids) simp_all
    then show ?thesis using T by simp
  next
    case (Some ms)
    then show ?thesis using that by blast
  qed
  from campaign_loop_checkpoint[OF T[unfolded cm]]
  obtain pre' ev i j x where a: "pre = pre' @ ev" "i < length ids"
    "j < length (if i = 0 then ms else metrics_selected_of c)"
    "sync_metric (api c) (ids ! i) ((if i = 0 then ms else metrics_selected_of c) ! j)
       (DateString x) = (ev, Inr ())"
    "campaigns_to_resume K = Some (drop i ids)"
    "metrics_to_resume K
       = Some (fold remove1 (take j (if i = 0 then ms else metrics_selected_of c))
                 (metrics_selected_of c))"
    "date_to_resume K = Some (DateString (x + 1))"
    by blast
  have "resume_or_start c campaigns = (ids, Some ms, ld)" using rs cm by simp
  with a show ?thesis by blast
qed

subsection \<open>The metric list of a checkpoint\<close>

lemma resume_or_start_resumed:
  "campaigns_to_resume (state c) = Some (cid # cids)
     \<Longrightarrow> resume_or_start c campaigns
         = (cid # cids, metrics_to_resume (state c),
            map_option pendulum_parse (date_to_resume (state c)))"
  by (simp add: resume_or_start_def)

text \<open>
  C10, as the code has it. Let \<^verbatim>\<open>sync_metrics\<close> resume from a checkpoint with campaigns
  \<open>cid # cids\<close> and metrics \<open>bm\<close>. A checkpoint \<open>K\<close> that the run writes while it
  processes the first campaign (the one that still records all of \<open>cid # cids\<close>) comes
  after a cell of \<open>cid\<close> and of a metric of the bookmark, the \<open>j\<close>-th of \<open>bm\<close>, and
  records as \<^verbatim>\<open>metrics_to_resume\<close> the full selected list less the first \<open>j\<close> metrics
  of \<open>bm\<close>, those the run has finished by then: the full selected list while the first
  metric of the bookmark is processed (\<open>j = 0\<close>), not the list \<open>bm\<close> of the bookmark.
\<close>

theorem resumed_checkpoint_metrics:
  assumes "campaigns_to_resume (state c) = Some (cid # cids)"
      and "metrics_to_resume (state c) = Some bm"
      and "fst (sync_metrics c campaigns) = pre @ WriteState K # post"
      and "campaigns_to_resume K = Some (cid # cids)"
  shows "\<exists>j x. j < length bm \<and> cells pre \<noteq> []
           \<and> last (cells pre) = (cid, bm ! j, DateString x)
           \<and> metrics_to_resume K = Some (fold remove1 (take j bm) (metrics_selected_of c))
           \<and> date_to_resume K = Some (DateString (x + 1))"
proof -
  from sync_metrics_checkpoint[OF assms(3)]
  obtain ids ms ld pre' ev i j x where a: "resume_or_start c campaigns = (ids, Some ms, ld)"
    "pre = pre' @ ev" "i < length ids"
    "j < length (if i = 0 then ms else metrics_selected_of c)"
    "sync_metric (api c) (ids ! i) ((if i = 0 then ms else metrics_selected_of c) ! j)
       (DateString x) = (ev, Inr ())"
    "campaigns_to_resume K = Some (drop i ids)"
    "metrics_to_resume K
       = Some (fold remove1 (take j (if i = 0 then ms else metrics_selected_of c))
                 (metrics_selected_of c))"
    "date_to_resume K = Some (DateString (x + 1))"
    by blast
  have ids: "ids = cid # cids" and ms: "ms = bm"
    using a(1) resume_or_start_resumed[OF assms(1), of campaigns] assms(2) by simp_all
  have "length (drop i ids) = length ids" using a(6) assms(4) ids by simp
  then have i: "i = 0" using a(3) by simp
  have "cells ev = [(cid, bm ! j, DateString x)]"
    using sync_metric_cells[of "api c" cid "bm ! j" "DateString x"] a(5) i ids ms by simp
  then have c: "cells pre \<noteq> []" "last (cells pre) = (cid, bm ! j, DateString x)"
    using a(2) by (simp_all add: cells_append)
  have "j < length bm \<and> cells pre \<noteq> []
           \<and> last (cells pre) = (cid, bm ! j, DateString x)
           \<and> metrics_to_resume K = Some (fold remove1 (take j bm) (metrics_selected_of c))
           \<and> date_to_resume K = Some (DateString (x + 1))"
    using a(4) a(7) a(8) c i ms by simp
  then show ?thesis by blast
qed

theorem resumed_checkpoint_metrics_witness:
  "metrics_to_resume (state resumed_ctx) = Some [''click'', ''bounce'']
   \<and> metrics_selected_of resumed_ctx = [''open'', ''click'', ''bounce'']
   \<and> take 8 (fst (sync_metrics resumed_ctx []))
       = before_bounce_checkpoint @ [WriteState bounce_checkpoint]
   \<and> last (cells before_bounce_checkpoint) = (''5'', ''bounce'', DateString day_2021_03_01)
   \<and> (\<exists>j x. j < length [''click'', ''bounce'']
         \<and> cells before_bounce_checkpoint \<noteq> []
         \<and> last (cells before_bounce_checkpoint) = (''5'', [''click'', ''bounce''] ! j, DateString x)
         \<and> metrics_to_resume bounce_checkpoint
             = Some (fold remove1 (take j [''click'', ''bounce'']) (metrics_selected_of resumed_ctx))
         \<and> date_to_resume bounce_checkpoint = Some (DateString (x + 1)))
   \<and> metrics_to_resume bounce_checkpoint = Some [''open'', ''bounce'']"
proof -
  have h1: "campaigns_to_resume (state resumed_ctx) = Some (''5'' # [])"
    by (simp add: resumed_ctx_def)
  have h2: "metrics_to_resume (state resumed_ctx) = Some [''click'', ''bounce'']"
    by (simp add: resumed_ctx_def)
  have tr: "fst (sync_metrics resumed_ctx [])
      = before_bounce_checkpoint @ WriteState bounce_checkpoint
          # drop 8 (fst (sync_metrics resumed_ctx []))"
    by (simp add: resumed_ctx_def example_defs run_defs before_bounce_checkpoint_def
        bounce_checkpoint_def)
  have h4: "campaigns_to_resume bounce_checkpoint = Some (''5'' # [])"
    by (simp add: bounce_checkpoint_def)
  note t = resumed_checkpoint_metrics[OF h1 h2 tr h4]
  have s: "metrics_selected_of resumed_ctx = [''open'', ''click'', ''bounce'']"
    by (simp add: resumed_ctx_def example_defs metrics_selected_of_def)
  have p: "take 8 (fst (sync_metrics resumed_ctx []))
       = before_bounce_checkpoint @ [WriteState bounce_checkpoint]"
    by (simp add: resumed_ctx_def example_defs run_defs before_bounce_checkpoint_def
        bounce_checkpoint_def)
  have l: "last (cells before_bounce_checkpoint) = (''5'', ''bounce'', DateString day_2021_03_01)"
    by (simp add: before_bounce_checkpoint_def)
  have m: "metrics_to_resume bounce_checkpoint = Some [''open'', ''bounce'']"
    by (simp add: bounce_checkpoint_def)
  from h2 s p l t m show ?thesis by blast
qed

theorem resumed_checkpoint_metrics_counterexample:
  "metrics_selected_of resumed_ctx = [''open'', ''click'', ''bounce'']
   \<and> metrics_to_resume (state resumed_ctx) = Some [''click'', ''bounce'']
   \<and> cells (fst (sync_metrics resumed_ctx []))
       = [(''5'', ''click'', DateString day_2021_03_02),
          (''5'', ''bounce'', DateString day_2021_03_01),
          (''5'', ''bounce'', DateString day_2021_03_02)]
   \<and> map metrics_to_resume (checkpoints (fst (sync_metrics resumed_ctx [])))
       = [Some [''open'', ''click'', ''bounce''], Some [''open'', ''bounce''],
          Some [''open'', ''bounce'']]"
  by (simp add: resumed_ctx_def example_defs run_defs)

subsection \<open>Record writes come before checkpoints\<close>














text \<open>The check on the whole trace refuses a trace that writes the checkpoint of a cell
  before its records, or a checkpoint with no cell before it.\<close>

lemma flush_then_checkpoint_refuses:
  "\<not> flush_then_checkpoint None
       [ResponsesPost ''open'' (DateString 0) ''1'', ResponsesGet ''job'',
        WriteState \<lparr>campaigns_to_resume = Some [''1''], metrics_to_resume = Some [''open''],
                     date_to_resume = Some (DateString 1), last_metric_date = None\<rparr>,
        WriteRecords ''metrics'' [MetricRow (DateString 0) ''open'' ''17'']]
   \<and> \<not> flush_then_checkpoint None
       [WriteState \<lparr>campaigns_to_resume = Some [''1''], metrics_to_resume = Some [''open''],
                     date_to_resume = Some (DateString 1), last_metric_date = None\<rparr>]"
  by (simp add: to_date_string_def add_days_def day_length_def)

subsection \<open>Rows and cells\<close>

lemma metric_rows_append: "metric_rows (A @ B) = metric_rows A @ metric_rows B"
  by (simp add: metric_rows_def batches_append)

lemma metric_rows_checkpoint: "metric_rows (WriteState K # T) = metric_rows T"
  by (simp add: metric_rows_def)

lemma rows_by_cells_Nil: "rows_by_cells cl []"
  by (simp add: rows_by_cells_def metric_rows_def)

lemma rows_by_cells_append:
  "rows_by_cells cl A \<Longrightarrow> rows_by_cells cl B \<Longrightarrow> rows_by_cells cl (A @ B)"
  by (auto simp: rows_by_cells_def metric_rows_append cells_append)

lemma rows_by_cells_checkpoint: "rows_by_cells cl T \<Longrightarrow> rows_by_cells cl (WriteState K # T)"
  by (simp add: rows_by_cells_def metric_rows_checkpoint)

lemma rows_by_cells_sync_metric: "rows_by_cells cl (fst (sync_metric cl c m d))"
  by (simp add: rows_by_cells_def sync_metric_cells cell_rows_def)

subsection \<open>Sets of cells\<close>

lemma cross_split: "d \<le> x \<Longrightarrow> x \<le> e \<Longrightarrow> cross cs ms d e = cross cs ms d x \<union> cross cs ms (x + 1) e"
  by (auto simp: cross_def)

lemma cross_single: "cross [c] [m] d d = {(c, m, DateString d)}"
  by (auto simp: cross_def)

lemma cross_empty: "e < d \<Longrightarrow> cross cs ms d e = {}"
  by (auto simp: cross_def)

lemma cross_mono:
  "set cs \<subseteq> set cs' \<Longrightarrow> set ms \<subseteq> set ms' \<Longrightarrow> d' \<le> d \<Longrightarrow> cross cs ms d e \<subseteq> cross cs' ms' d' e"
  by (auto simp: cross_def)

lemma cross_Cons_metric: "cross cs (m # ms) d e = cross cs [m] d e \<union> cross cs ms d e"
  by (auto simp: cross_def)

lemma cross_Cons_campaign: "cross (c # cs) ms d e = cross [c] ms d e \<union> cross cs ms d e"
  by (auto simp: cross_def)

lemma cross_Nil [simp]: "cross [] ms d e = {}" "cross cs [] d e = {}"
  by (auto simp: cross_def)

lemma mwork_start: "mwork s e c ms s = cross [c] ms s e"
  by (cases ms) (auto simp: mwork_def cross_def)

lemma cwork_start: "cwork full s e cs full s = cross cs full s e"
  by (cases cs) (auto simp: cwork_def mwork_start cross_def)

lemma cells_ok_mono: "cells_ok cl S \<Longrightarrow> S' \<subseteq> S \<Longrightarrow> cells_ok cl S'"
  by (auto simp: cells_ok_def)

lemma cells_ok_Un: "cells_ok cl (A \<union> B) = (cells_ok cl A \<and> cells_ok cl B)"
  by (auto simp: cells_ok_def)

subsection \<open>The date loop and a checkpoint in its trace\<close>

lemma date_loop_rows: "rows_by_cells cl (fst (date_loop cl c m cps mts e t st))"
proof (induction t st rule: date_loop_induct[of e cl c m cps mts])
  case (stop t st)
  then show ?case by (simp add: rows_by_cells_Nil)
next
  case (fail t st ev err)
  then show ?case using rows_by_cells_sync_metric[of cl c m "to_date_string t"] by simp
next
  case (step t st ev u ev' r)
  have "rows_by_cells cl ev"
    using rows_by_cells_sync_metric[of cl c m "to_date_string t"] step(2) by simp
  moreover have "rows_by_cells cl ev'" using step(5) step(3) by simp
  ultimately show ?case unfolding step(4)
    by (simp add: rows_by_cells_append rows_by_cells_checkpoint)
qed

lemma day_loop_cells_cross:
  "set (cells (fst (date_loop cl c m cps mts e (midnight d) st))) \<subseteq> cross [c] [m] d (last_day e)"
  using day_loop_cells[of cl c m cps mts e d st] by (auto simp: cross_def)

lemma day_loop_split:
  "date_loop cl c m cps mts e (midnight d) st = (T, r) \<Longrightarrow> T = pre @ WriteState K # post
     \<Longrightarrow> \<exists>x. d \<le> x \<and> x \<le> last_day e
           \<and> campaigns_to_resume K = Some cps \<and> metrics_to_resume K = Some mts
           \<and> date_to_resume K = Some (DateString (x + 1))
           \<and> last_metric_date K = last_metric_date st
           \<and> cross [c] [m] d x \<subseteq> set (cells pre)
           \<and> rows_by_cells cl pre"
proof (induction d st arbitrary: T r pre rule: day_loop_induct[of e cl c m cps mts])
  case (stop d st)
  then show ?case by simp
next
  case (fail d st ev err)
  have "checkpoints ev = []"
    using sync_metric_checkpoints[of cl c m "DateString d"] fail(2) by simp
  moreover have "ev = pre @ WriteState K # post" using fail(3) fail.prems by simp
  ultimately show ?case using no_checkpoint_no_split[of ev pre K post] by simp
next
  case (step d st ev u ev' r')
  define K1 where "K1 = write_metrics_state st cps mts (midnight (d + 1))"
  have ce: "checkpoints ev = []"
    using sync_metric_checkpoints[of cl c m "DateString d"] step(2) by simp
  have cev: "cells ev = [(c, m, DateString d)]"
    using sync_metric_cells[of cl c m "DateString d"] step(2) by simp
  have rev: "rows_by_cells cl ev"
    using rows_by_cells_sync_metric[of cl c m "DateString d"] step(2) by simp
  have "pre @ WriteState K # post = ev @ WriteState K1 # ev'"
    using step(4) step.prems by (simp add: K1_def)
  from split_at_checkpoint[OF ce this]
  consider (here) "pre = ev" "K = K1" "post = ev'"
    | (later) pre' where "pre = ev @ WriteState K1 # pre'" "ev' = pre' @ WriteState K # post"
    by blast
  then show ?case
  proof cases
    case here
    show ?thesis
    proof (intro exI[of _ d] conjI)
      show "cross [c] [m] d d \<subseteq> set (cells pre)" using here cev by (simp add: cross_single)
      show "rows_by_cells cl pre" using here rev by simp
    qed (use here step(1) in \<open>simp_all add: K1_def write_metrics_state_def midnight_string\<close>)
  next
    case later
    from step(5)[OF step(3) later(2)]
    obtain x where x: "d + 1 \<le> x" "x \<le> last_day e"
      "campaigns_to_resume K = Some cps" "metrics_to_resume K = Some mts"
      "date_to_resume K = Some (DateString (x + 1))"
      "last_metric_date K = last_metric_date K1"
      "cross [c] [m] (d + 1) x \<subseteq> set (cells pre')" "rows_by_cells cl pre'"
      unfolding K1_def by blast
    have cs: "cross [c] [m] d x = cross [c] [m] d d \<union> cross [c] [m] (d + 1) x"
      using x(1) by (intro cross_split) simp_all
    show ?thesis
    proof (intro exI[of _ x] conjI)
      show "d \<le> x" using x(1) by simp
      show "last_metric_date K = last_metric_date st"
        using x(6) by (simp add: K1_def write_metrics_state_def)
      show "cross [c] [m] d x \<subseteq> set (cells pre)"
        unfolding cs later(1) using x(7) cev by (auto simp: cells_append cross_single)
      show "rows_by_cells cl pre"
        unfolding later(1) using rev x(8)
        by (simp add: rows_by_cells_append rows_by_cells_checkpoint)
    qed (use x in simp_all)
  qed
qed

lemma day_loop_complete:
  "date_loop cl c m cps mts e (midnight d) st = (T, Inr st')
     \<Longrightarrow> cross [c] [m] d (last_day e) \<subseteq> set (cells T)
         \<and> cells_ok cl (cross [c] [m] d (last_day e))
         \<and> last_metric_date st' = last_metric_date st"
proof (induction d st arbitrary: T rule: day_loop_induct[of e cl c m cps mts])
  case (stop d st)
  then show ?case by (simp add: cross_empty cells_ok_def)
next
  case (fail d st ev err)
  then show ?case by simp
next
  case (step d st ev u ev' r)
  have r: "r = Inr st'"
    and T: "T = ev @ WriteState (write_metrics_state st cps mts (midnight (d + 1))) # ev'"
    using step(4) step.prems by simp_all
  have cev: "cells ev = [(c, m, DateString d)]"
    using sync_metric_cells[of cl c m "DateString d"] step(2) by simp
  have okd: "cells_ok cl (cross [c] [m] d d)"
    using step(2) by (simp add: cross_single cells_ok_def)
  from step(5)[OF step(3)[unfolded r]]
  have ih: "cross [c] [m] (d + 1) (last_day e) \<subseteq> set (cells ev')"
    "cells_ok cl (cross [c] [m] (d + 1) (last_day e))"
    "last_metric_date st' = last_metric_date (write_metrics_state st cps mts (midnight (d + 1)))"
    by simp_all
  have cs: "cross [c] [m] d (last_day e) = cross [c] [m] d d \<union> cross [c] [m] (d + 1) (last_day e)"
    using step(1) by (intro cross_split) simp_all
  have a: "cross [c] [m] d d \<union> cross [c] [m] (d + 1) (last_day e)
      \<subseteq> set (cells (ev @ WriteState (write_metrics_state st cps mts (midnight (d + 1))) # ev'))"
    using ih(1) cev by (auto simp: cells_append cross_single)
  have b: "cells_ok cl (cross [c] [m] d d \<union> cross [c] [m] (d + 1) (last_day e))"
    using ih(2) okd by (simp add: cells_ok_Un)
  have c: "last_metric_date st' = last_metric_date st"
    using ih(3) by (simp add: write_metrics_state_def)
  show ?case unfolding cs T using a b c by blast
qed

lemma day_loop_runs:
  "cells_ok cl (cross [c] [m] d (last_day e))
     \<Longrightarrow> \<exists>T st'. date_loop cl c m cps mts e (midnight d) st = (T, Inr st')"
proof (induction d st rule: day_loop_induct[of e cl c m cps mts])
  case (stop d st)
  then show ?case by simp
next
  case (fail d st ev err)
  have "(c, m, DateString d) \<in> cross [c] [m] d (last_day e)"
    using fail(1) by (auto simp: cross_def)
  then have "snd (sync_metric cl c m (DateString d)) = Inr ()"
    using fail.prems by (auto simp: cells_ok_def)
  then show ?case using fail(2) by simp
next
  case (step d st ev u ev' r)
  have "cross [c] [m] (d + 1) (last_day e) \<subseteq> cross [c] [m] d (last_day e)"
    by (auto simp: cross_def)
  then have "cells_ok cl (cross [c] [m] (d + 1) (last_day e))"
    using step.prems cells_ok_mono by blast
  from step(5)[OF this] show ?case using step(3) step(4) by auto
qed

subsection \<open>The metric list while metrics are removed\<close>

lemma subseq_subset: "subseq xs ys \<Longrightarrow> set xs \<subseteq> set ys"
  by (induction rule: list_emb.induct) auto

lemma subseq_remove1: "subseq (remove1 m mts) mts"
  by (induction mts) auto

lemma subseq_head_removed:
  "distinct mts \<Longrightarrow> subseq (m # rest) mts
     \<Longrightarrow> m \<in> set mts \<and> subseq rest (remove1 m mts) \<and> set rest \<subseteq> set (tl mts)"
proof (induction mts)
  case Nil
  then show ?case by simp
next
  case (Cons y ys)
  show ?case
  proof (cases "m = y")
    case True
    then have "subseq rest ys" using Cons.prems(2) by simp
    then show ?thesis using True subseq_subset by auto
  next
    case False
    then have "subseq (m # rest) ys" using Cons.prems(2) by simp
    then have ih: "m \<in> set ys" "subseq rest (remove1 m ys)" "set rest \<subseteq> set (tl ys)"
      using Cons.IH Cons.prems(1) by simp_all
    have "set (tl ys) \<subseteq> set ys" by (cases ys) auto
    then show ?thesis using ih False by auto
  qed
qed

subsection \<open>The metric loop and a checkpoint in its trace\<close>

lemma first_day_None: "first_day s None s"
  by (simp add: first_day_def)

lemma first_day_Some: "first_day s (Some (midnight d)) d"
  by (simp add: first_day_def)

lemma metric_loop_parsed_cases [consumes 1, case_names fail gone continue]:
  assumes "first_day s ld fd"
      and "\<And>ev err.
             date_loop cl c m cps mts e (midnight fd) st = (ev, Inl err)
             \<Longrightarrow> metric_loop cl c cps e (PDate (midnight s)) (m # rest) mts ld st = (ev, Inl err)
             \<Longrightarrow> P"
      and "\<And>ev st'.
             date_loop cl c m cps mts e (midnight fd) st = (ev, Inr st')
             \<Longrightarrow> m \<notin> set mts
             \<Longrightarrow> metric_loop cl c cps e (PDate (midnight s)) (m # rest) mts ld st
                   = (ev, Inl (ValueError ''list.remove(x): x not in list'')) \<Longrightarrow> P"
      and "\<And>ev st' ev' r.
             date_loop cl c m cps mts e (midnight fd) st = (ev, Inr st')
             \<Longrightarrow> m \<in> set mts
             \<Longrightarrow> metric_loop cl c cps e (PDate (midnight s)) rest (remove1 m mts) None st'
                   = (ev', r)
             \<Longrightarrow> metric_loop cl c cps e (PDate (midnight s)) (m # rest) mts ld st = (ev @ ev', r)
             \<Longrightarrow> P"
  shows P
proof -
  have dw: "dates_while cl c m cps mts e
        (case ld of Some d \<Rightarrow> PDate d | None \<Rightarrow> PDate (midnight s)) st
      = date_loop cl c m cps mts e (midnight fd) st"
    using assms(1) by (cases ld) (simp_all add: dates_while_def first_day_def)
  show P
    by (rule metric_loop_cases[of cl c m cps mts e "PDate (midnight s)" ld st rest P])
       (use assms(2-) dw in auto)
qed

lemma metric_loop_rows:
  "rows_by_cells cl (fst (metric_loop cl c cps e start ms mts ld st))"
proof (induction ms arbitrary: mts ld st)
  case Nil
  then show ?case by (simp add: rows_by_cells_Nil)
next
  case (Cons m rest)
  have f: "rows_by_cells cl
      (fst (dates_while cl c m cps mts e (case ld of Some d \<Rightarrow> PDate d | None \<Rightarrow> start) st))"
    by (cases "case ld of Some d \<Rightarrow> PDate d | None \<Rightarrow> start")
       (simp_all add: dates_while_def date_loop_rows rows_by_cells_Nil)
  show ?case
  proof (cases rule: metric_loop_cases[of cl c m cps mts e start ld st rest])
    case (fail ev err)
    then show ?thesis using f by simp
  next
    case (gone ev st')
    then show ?thesis using f by simp
  next
    case (continue ev st' ev' r)
    have "rows_by_cells cl ev" using f continue(1) by simp
    moreover have "rows_by_cells cl ev'"
      using Cons.IH[of "remove1 m mts" None st'] continue(3) by simp
    ultimately show ?thesis unfolding continue(4) by (simp add: rows_by_cells_append)
  qed
qed

lemma metric_loop_cells:
  "first_day s ld fd
     \<Longrightarrow> set (cells (fst (metric_loop cl c cps e (PDate (midnight s)) ms mts ld st)))
           \<subseteq> mwork s (last_day e) c ms fd"
proof (induction ms arbitrary: mts ld fd st)
  case Nil
  then show ?case by simp
next
  case (Cons m rest)
  have f: "set (cells (fst (date_loop cl c m cps mts e (midnight fd) st)))
      \<subseteq> cross [c] [m] fd (last_day e)"
    by (rule day_loop_cells_cross)
  have w: "mwork s (last_day e) c (m # rest) fd
      = cross [c] [m] fd (last_day e) \<union> cross [c] rest s (last_day e)"
    by (simp add: mwork_def)
  from Cons.prems show ?case
  proof (cases rule: metric_loop_parsed_cases[where cl=cl and c=c and m=m and cps=cps
        and mts=mts and e=e and st=st and rest=rest])
    case (fail ev err)
    then show ?thesis unfolding w using f by auto
  next
    case (gone ev st')
    then show ?thesis unfolding w using f by auto
  next
    case (continue ev st' ev' r)
    have "set (cells ev') \<subseteq> cross [c] rest s (last_day e)"
      using Cons.IH[OF first_day_None, of "remove1 m mts" st'] continue(3)
      by (simp add: mwork_start)
    moreover have "set (cells ev) \<subseteq> cross [c] [m] fd (last_day e)"
      using f continue(1) by simp
    ultimately show ?thesis unfolding w continue(4) by (auto simp: cells_append)
  qed
qed

lemma metric_loop_complete:
  "first_day s ld fd
     \<Longrightarrow> metric_loop cl c cps e (PDate (midnight s)) ms mts ld st = (T, Inr (ld', st'))
     \<Longrightarrow> mwork s (last_day e) c ms fd \<subseteq> set (cells T)
         \<and> cells_ok cl (mwork s (last_day e) c ms fd)
         \<and> last_metric_date st' = last_metric_date st
         \<and> (ld' = (if ms = [] then ld else None))"
proof (induction ms arbitrary: mts ld fd st T)
  case Nil
  then show ?case by (simp add: mwork_def cells_ok_def)
next
  case (Cons m rest)
  have w: "mwork s (last_day e) c (m # rest) fd
      = cross [c] [m] fd (last_day e) \<union> cross [c] rest s (last_day e)"
    by (simp add: mwork_def)
  from Cons.prems(1) show ?case
  proof (cases rule: metric_loop_parsed_cases[where cl=cl and c=c and m=m and cps=cps
        and mts=mts and e=e and st=st and rest=rest])
    case (fail ev err)
    then show ?thesis using Cons.prems(2) by simp
  next
    case (gone ev st1)
    then show ?thesis using Cons.prems(2) by simp
  next
    case (continue ev st1 ev' r)
    have r: "r = Inr (ld', st')" and T: "T = ev @ ev'" using continue(4) Cons.prems(2) by simp_all
    from day_loop_complete[OF continue(1)]
    have d: "cross [c] [m] fd (last_day e) \<subseteq> set (cells ev)"
      "cells_ok cl (cross [c] [m] fd (last_day e))"
      "last_metric_date st1 = last_metric_date st"
      by simp_all
    from Cons.IH[OF first_day_None continue(3)[unfolded r]]
    have ih: "cross [c] rest s (last_day e) \<subseteq> set (cells ev')"
      "cells_ok cl (cross [c] rest s (last_day e))"
      "last_metric_date st' = last_metric_date st1" "ld' = None"
      by (simp_all add: mwork_start)
    have a: "cross [c] [m] fd (last_day e) \<union> cross [c] rest s (last_day e)
        \<subseteq> set (cells (ev @ ev'))"
      using d(1) ih(1) by (auto simp: cells_append)
    have b: "cells_ok cl (cross [c] [m] fd (last_day e) \<union> cross [c] rest s (last_day e))"
      using d(2) ih(2) by (simp add: cells_ok_Un)
    show ?thesis unfolding w T using a b d(3) ih(3) ih(4) by simp
  qed
qed

lemma metric_loop_runs:
  "first_day s ld fd \<Longrightarrow> cells_ok cl (mwork s (last_day e) c ms fd)
     \<Longrightarrow> distinct mts \<Longrightarrow> subseq ms mts
     \<Longrightarrow> \<exists>T p. metric_loop cl c cps e (PDate (midnight s)) ms mts ld st = (T, Inr p)"
proof (induction ms arbitrary: mts ld fd st)
  case Nil
  then show ?case by simp
next
  case (Cons m rest)
  have w: "mwork s (last_day e) c (m # rest) fd
      = cross [c] [m] fd (last_day e) \<union> cross [c] rest s (last_day e)"
    by (simp add: mwork_def)
  have ok1: "cells_ok cl (cross [c] [m] fd (last_day e))"
    and ok2: "cells_ok cl (cross [c] rest s (last_day e))"
    using Cons.prems(2) unfolding w by (simp_all add: cells_ok_Un)
  from subseq_head_removed[OF Cons.prems(3) Cons.prems(4)]
  have mem: "m \<in> set mts" and sub: "subseq rest (remove1 m mts)" by simp_all
  obtain T1 st1 where dl: "date_loop cl c m cps mts e (midnight fd) st = (T1, Inr st1)"
    using day_loop_runs[OF ok1] by blast
  have ok3: "cells_ok cl (mwork s (last_day e) c rest s)"
    using ok2 by (simp add: mwork_start)
  have dm: "distinct (remove1 m mts)" using Cons.prems(3) by simp
  from Cons.IH[OF first_day_None ok3 dm sub, of st1]
  obtain T2 p where ml:
    "metric_loop cl c cps e (PDate (midnight s)) rest (remove1 m mts) None st1 = (T2, Inr p)"
    by auto
  from Cons.prems(1) show ?case
  proof (cases rule: metric_loop_parsed_cases[where cl=cl and c=c and m=m and cps=cps
        and mts=mts and e=e and st=st and rest=rest])
    case (fail ev err)
    then show ?thesis using dl by simp
  next
    case (gone ev st')
    then show ?thesis using mem by simp
  next
    case (continue ev st' ev' r)
    then show ?thesis using dl ml by simp
  qed
qed

lemma mwork_covered:
  assumes "distinct mts" and "subseq (m # rest) mts" and "s \<le> d" and "d \<le> x"
      and "cross [c] [m] d x \<subseteq> A"
  shows "mwork s e c (m # rest) d \<subseteq> A \<union> mwork s e c mts (x + 1)"
proof -
  from subseq_head_removed[OF assms(1) assms(2)]
  have mem: "m \<in> set mts" and tl: "set rest \<subseteq> set (tl mts)" by simp_all
  then obtain y ys where mts: "mts = y # ys" by (cases mts) auto
  have my: "m = y \<or> m \<in> set ys" using mem mts by auto
  have ry: "set rest \<subseteq> set ys" using tl mts by simp
  show ?thesis
  proof
    fix cell assume "cell \<in> mwork s e c (m # rest) d"
    then consider (first) z where "cell = (c, m, DateString z)" "d \<le> z" "z \<le> e"
      | (others) m' z where "cell = (c, m', DateString z)" "m' \<in> set rest" "s \<le> z" "z \<le> e"
      by (auto simp: mwork_def cross_def)
    then show "cell \<in> A \<union> mwork s e c mts (x + 1)"
    proof cases
      case first
      show ?thesis
      proof (cases "z \<le> x")
        case True
        then have "cell \<in> cross [c] [m] d x" using first by (auto simp: cross_def)
        then show ?thesis using assms(5) by blast
      next
        case False
        then have "x + 1 \<le> z" "s \<le> z" using first(2) assms(3) by simp_all
        then show ?thesis using first my unfolding mts
          by (auto simp: mwork_def cross_def)
      qed
    next
      case others
      then show ?thesis using ry unfolding mts by (auto simp: mwork_def cross_def)
    qed
  qed
qed

lemma metric_loop_split:
  "first_day s ld fd
     \<Longrightarrow> metric_loop cl c cps e (PDate (midnight s)) ms mts ld st = (T, r)
     \<Longrightarrow> T = pre @ WriteState K # post
     \<Longrightarrow> distinct mts \<Longrightarrow> subseq ms mts \<Longrightarrow> s \<le> fd
     \<Longrightarrow> \<exists>x L. s \<le> x \<and> x \<le> last_day e
           \<and> campaigns_to_resume K = Some cps \<and> metrics_to_resume K = Some L
           \<and> L \<noteq> [] \<and> subseq L mts
           \<and> date_to_resume K = Some (DateString (x + 1))
           \<and> last_metric_date K = last_metric_date st
           \<and> mwork s (last_day e) c ms fd \<subseteq> set (cells pre) \<union> mwork s (last_day e) c L (x + 1)
           \<and> rows_by_cells cl pre"
proof (induction ms arbitrary: mts ld fd st T r pre)
  case Nil
  then show ?case by simp
next
  case (Cons m rest)
  note sub = subseq_head_removed[OF Cons.prems(4) Cons.prems(5)]
  have sfd: "s \<le> fd" using Cons.prems(6) .
  have in_dates: "\<exists>x L. s \<le> x \<and> x \<le> last_day e
           \<and> campaigns_to_resume K = Some cps \<and> metrics_to_resume K = Some L
           \<and> L \<noteq> [] \<and> subseq L mts
           \<and> date_to_resume K = Some (DateString (x + 1))
           \<and> last_metric_date K = last_metric_date st
           \<and> mwork s (last_day e) c (m # rest) fd
               \<subseteq> set (cells pre') \<union> mwork s (last_day e) c L (x + 1)
           \<and> rows_by_cells cl pre'"
    if dl: "date_loop cl c m cps mts e (midnight fd) st = (ev, x0)"
      and ev: "ev = pre' @ WriteState K # post'"
    for ev x0 pre' post'
  proof -
    from day_loop_split[OF dl ev]
    obtain x where x: "fd \<le> x" "x \<le> last_day e"
      "campaigns_to_resume K = Some cps" "metrics_to_resume K = Some mts"
      "date_to_resume K = Some (DateString (x + 1))"
      "last_metric_date K = last_metric_date st"
      "cross [c] [m] fd x \<subseteq> set (cells pre')" "rows_by_cells cl pre'"
      by blast
    have ne: "mts \<noteq> []" using sub by auto
    have cov: "mwork s (last_day e) c (m # rest) fd
        \<subseteq> set (cells pre') \<union> mwork s (last_day e) c mts (x + 1)"
      by (rule mwork_covered[OF Cons.prems(4) Cons.prems(5) sfd x(1) x(7)])
    have sx: "s \<le> x" using sfd x(1) by simp
    have ss: "subseq mts mts" by simp
    from sx x(2) x(3) x(4) ne ss x(5) x(6) cov x(8) show ?thesis by blast
  qed
  from Cons.prems(1) show ?case
  proof (cases rule: metric_loop_parsed_cases[where cl=cl and c=c and m=m and cps=cps
        and mts=mts and e=e and st=st and rest=rest])
    case (fail ev err)
    then have ev: "ev = pre @ WriteState K # post" using Cons.prems(2,3) by simp
    show ?thesis by (rule in_dates[OF fail(1) ev])
  next
    case (gone ev st1)
    then have ev: "ev = pre @ WriteState K # post" using Cons.prems(2,3) by simp
    show ?thesis by (rule in_dates[OF gone(1) ev])
  next
    case (continue ev st1 ev' r')
    have T: "pre @ WriteState K # post = ev @ ev'" and r: "r' = r"
      using continue(4) Cons.prems(2,3) by simp_all
    from split_in_append[OF T]
    consider (dates) post1 where "ev = pre @ WriteState K # post1"
      | (later) pre2 where "pre = ev @ pre2" "ev' = pre2 @ WriteState K # post"
      by blast
    then show ?thesis
    proof cases
      case dates
      show ?thesis by (rule in_dates[OF continue(1) dates])
    next
      case later
      from day_loop_complete[OF continue(1)]
      have d: "cross [c] [m] fd (last_day e) \<subseteq> set (cells ev)"
        "last_metric_date st1 = last_metric_date st"
        by simp_all
      have rev: "rows_by_cells cl ev"
        using date_loop_rows[of cl c m cps mts e "midnight fd" st] continue(1) by simp
      have dm: "distinct (remove1 m mts)" using Cons.prems(4) by simp
      have sub2: "subseq rest (remove1 m mts)" using sub by simp
      have sle: "s \<le> s" by simp
      from Cons.IH[OF first_day_None continue(3) later(2) dm sub2 sle]
      obtain x L where x: "s \<le> x" "x \<le> last_day e"
        "campaigns_to_resume K = Some cps" "metrics_to_resume K = Some L"
        "L \<noteq> []" "subseq L (remove1 m mts)"
        "date_to_resume K = Some (DateString (x + 1))"
        "last_metric_date K = last_metric_date st1"
        "mwork s (last_day e) c rest s \<subseteq> set (cells pre2) \<union> mwork s (last_day e) c L (x + 1)"
        "rows_by_cells cl pre2"
        by blast
      have sl: "subseq L mts" by (rule subseq_order.trans[OF x(6) subseq_remove1])
      have w: "mwork s (last_day e) c (m # rest) fd
          = cross [c] [m] fd (last_day e) \<union> mwork s (last_day e) c rest s"
        by (simp add: mwork_def[of s "last_day e" c "m # rest"] mwork_start)
      have cp: "set (cells pre) = set (cells ev) \<union> set (cells pre2)"
        unfolding later(1) by (simp add: cells_append)
      have cov: "mwork s (last_day e) c (m # rest) fd
          \<subseteq> set (cells pre) \<union> mwork s (last_day e) c L (x + 1)"
        unfolding w cp using d(1) x(9) by blast
      have rp: "rows_by_cells cl pre" unfolding later(1) using rev x(10)
        by (simp add: rows_by_cells_append)
      have lm: "last_metric_date K = last_metric_date st" using x(8) d(2) by simp
      from x(1) x(2) x(3) x(4) x(5) sl x(7) lm cov rp show ?thesis by blast
    qed
  qed
qed

subsection \<open>The campaign loop and a checkpoint in its trace\<close>

lemma cwork_Cons: "cwork full s e (c # rest) ms d = mwork s e c ms d \<union> cross rest full s e"
  by (simp add: cwork_def)

lemma campaign_loop_rows:
  "rows_by_cells cl (fst (campaign_loop cl full e start cs cs (Some ms) ld st))"
proof (induction cs arbitrary: ms ld st)
  case Nil
  then show ?case by (simp add: rows_by_cells_Nil)
next
  case (Cons cid rest)
  have f: "rows_by_cells cl (fst (metric_loop cl cid (cid # rest) e start ms full ld st))"
    by (rule metric_loop_rows)
  show ?case
  proof (cases rule: campaign_loop_cases[of cl cid rest e start ms full ld st])
    case (fail ev err)
    then show ?thesis using f by simp
  next
    case (continue ev ld' st' ev' r)
    have "rows_by_cells cl ev" using f continue(1) by simp
    moreover have "rows_by_cells cl ev'" using Cons.IH[of full ld' st'] continue(2) by simp
    ultimately show ?thesis unfolding continue(3) by (simp add: rows_by_cells_append)
  qed
qed

lemma campaign_loop_cells:
  "first_day s ld fd \<Longrightarrow> (ms = [] \<longrightarrow> ld = None)
     \<Longrightarrow> set (cells (fst (campaign_loop cl full e (PDate (midnight s)) cs cs (Some ms) ld st)))
           \<subseteq> cwork full s (last_day e) cs ms fd"
proof (induction cs arbitrary: ms ld fd st)
  case Nil
  then show ?case by simp
next
  case (Cons cid rest)
  have f: "set (cells (fst (metric_loop cl cid (cid # rest) e (PDate (midnight s)) ms full ld st)))
      \<subseteq> mwork s (last_day e) cid ms fd"
    by (rule metric_loop_cells[OF Cons.prems(1)])
  show ?case
  proof (cases rule: campaign_loop_cases[of cl cid rest e "PDate (midnight s)" ms full ld st])
    case (fail ev err)
    then show ?thesis unfolding cwork_Cons using f by auto
  next
    case (continue ev ld' st' ev' r)
    from metric_loop_complete[OF Cons.prems(1) continue(1)]
    have "ld' = (if ms = [] then ld else None)" by simp
    then have ld': "ld' = None" using Cons.prems(2) by (simp split: if_splits)
    have tr: "full = [] \<longrightarrow> (None :: datetime option) = None" by simp
    have "set (cells ev') \<subseteq> cross rest full s (last_day e)"
      using Cons.IH[OF first_day_None tr, of st'] continue(2) ld' by (simp add: cwork_start)
    moreover have "set (cells ev) \<subseteq> mwork s (last_day e) cid ms fd"
      using f continue(1) by simp
    ultimately show ?thesis unfolding cwork_Cons continue(3) by (auto simp: cells_append)
  qed
qed

lemma campaign_loop_complete:
  "first_day s ld fd \<Longrightarrow> (ms = [] \<longrightarrow> ld = None)
     \<Longrightarrow> campaign_loop cl full e (PDate (midnight s)) cs cs (Some ms) ld st = (T, Inr st')
     \<Longrightarrow> cwork full s (last_day e) cs ms fd \<subseteq> set (cells T)
         \<and> cells_ok cl (cwork full s (last_day e) cs ms fd)"
proof (induction cs arbitrary: ms ld fd st T)
  case Nil
  then show ?case by (simp add: cwork_def cells_ok_def)
next
  case (Cons cid rest)
  show ?case
  proof (cases rule: campaign_loop_cases[of cl cid rest e "PDate (midnight s)" ms full ld st])
    case (fail ev err)
    then show ?thesis using Cons.prems(3) by simp
  next
    case (continue ev ld' st1 ev' r)
    have r: "r = Inr st'" and T: "T = ev @ ev'" using continue(3) Cons.prems(3) by simp_all
    from metric_loop_complete[OF Cons.prems(1) continue(1)]
    have m: "mwork s (last_day e) cid ms fd \<subseteq> set (cells ev)"
      "cells_ok cl (mwork s (last_day e) cid ms fd)"
      "ld' = (if ms = [] then ld else None)"
      by simp_all
    have ld': "ld' = None" using m(3) Cons.prems(2) by (simp split: if_splits)
    have tr: "full = [] \<longrightarrow> (None :: datetime option) = None" by simp
    from Cons.IH[OF first_day_None tr continue(2)[unfolded r ld']]
    have ih: "cross rest full s (last_day e) \<subseteq> set (cells ev')"
      "cells_ok cl (cross rest full s (last_day e))"
      by (simp_all add: cwork_start)
    have a: "mwork s (last_day e) cid ms fd \<union> cross rest full s (last_day e)
        \<subseteq> set (cells (ev @ ev'))"
      using m(1) ih(1) by (auto simp: cells_append)
    have b: "cells_ok cl (mwork s (last_day e) cid ms fd \<union> cross rest full s (last_day e))"
      using m(2) ih(2) by (simp add: cells_ok_Un)
    show ?thesis unfolding cwork_Cons T using a b by simp
  qed
qed

lemma campaign_loop_runs:
  "first_day s ld fd \<Longrightarrow> cells_ok cl (cwork full s (last_day e) cs ms fd)
     \<Longrightarrow> distinct full \<Longrightarrow> subseq ms full \<Longrightarrow> (ms = [] \<longrightarrow> ld = None)
     \<Longrightarrow> \<exists>T st'. campaign_loop cl full e (PDate (midnight s)) cs cs (Some ms) ld st
           = (T, Inr st')"
proof (induction cs arbitrary: ms ld fd st)
  case Nil
  then show ?case by simp
next
  case (Cons cid rest)
  have ok1: "cells_ok cl (mwork s (last_day e) cid ms fd)"
    and ok2: "cells_ok cl (cross rest full s (last_day e))"
    using Cons.prems(2) unfolding cwork_Cons by (simp_all add: cells_ok_Un)
  from metric_loop_runs[OF Cons.prems(1) ok1 Cons.prems(3) Cons.prems(4), of "cid # rest" st]
  obtain T1 p where ml:
    "metric_loop cl cid (cid # rest) e (PDate (midnight s)) ms full ld st = (T1, Inr p)"
    by blast
  obtain ld1 st1 where p: "p = (ld1, st1)" by (cases p)
  from metric_loop_complete[OF Cons.prems(1) ml[unfolded p]]
  have "ld1 = (if ms = [] then ld else None)" by simp
  then have ld1: "ld1 = None" using Cons.prems(5) by (simp split: if_splits)
  have ok3: "cells_ok cl (cwork full s (last_day e) rest full s)"
    using ok2 by (simp add: cwork_start)
  have sf: "subseq full full" by simp
  have tr: "full = [] \<longrightarrow> (None :: datetime option) = None" by simp
  from Cons.IH[OF first_day_None ok3 Cons.prems(3) sf tr, of st1]
  obtain T2 st2 where cl2:
    "campaign_loop cl full e (PDate (midnight s)) rest rest (Some full) None st1 = (T2, Inr st2)"
    by blast
  show ?case
  proof (cases rule: campaign_loop_cases[of cl cid rest e "PDate (midnight s)" ms full ld st])
    case (fail ev err)
    then show ?thesis using ml by simp
  next
    case (continue ev ld' st' ev' r)
    then show ?thesis using ml p ld1 cl2 by simp
  qed
qed

lemma campaign_loop_split:
  "first_day s ld fd
     \<Longrightarrow> campaign_loop cl full e (PDate (midnight s)) cs cs (Some ms) ld st = (T, r)
     \<Longrightarrow> T = pre @ WriteState K # post
     \<Longrightarrow> distinct full \<Longrightarrow> subseq ms full \<Longrightarrow> s \<le> fd
     \<Longrightarrow> (ms = [] \<longrightarrow> ld = None)
     \<Longrightarrow> \<exists>i x L. i < length cs \<and> s \<le> x \<and> x \<le> last_day e
           \<and> campaigns_to_resume K = Some (drop i cs) \<and> metrics_to_resume K = Some L
           \<and> L \<noteq> [] \<and> subseq L full
           \<and> date_to_resume K = Some (DateString (x + 1))
           \<and> last_metric_date K = last_metric_date st
           \<and> cwork full s (last_day e) cs ms fd
               \<subseteq> set (cells pre) \<union> cwork full s (last_day e) (drop i cs) L (x + 1)
           \<and> rows_by_cells cl pre"
proof (induction cs arbitrary: ms ld fd st T r pre)
  case Nil
  then show ?case by simp
next
  case (Cons cid rest)
  have in_metrics: "\<exists>i x L. i < length (cid # rest) \<and> s \<le> x \<and> x \<le> last_day e
           \<and> campaigns_to_resume K = Some (drop i (cid # rest)) \<and> metrics_to_resume K = Some L
           \<and> L \<noteq> [] \<and> subseq L full
           \<and> date_to_resume K = Some (DateString (x + 1))
           \<and> last_metric_date K = last_metric_date st
           \<and> cwork full s (last_day e) (cid # rest) ms fd
               \<subseteq> set (cells pre') \<union> cwork full s (last_day e) (drop i (cid # rest)) L (x + 1)
           \<and> rows_by_cells cl pre'"
    if ml: "metric_loop cl cid (cid # rest) e (PDate (midnight s)) ms full ld st = (ev, x0)"
      and ev: "ev = pre' @ WriteState K # post'"
    for ev x0 pre' post'
  proof -
    from metric_loop_split[OF Cons.prems(1) ml ev Cons.prems(4) Cons.prems(5) Cons.prems(6)]
    obtain x L where x: "s \<le> x" "x \<le> last_day e"
      "campaigns_to_resume K = Some (cid # rest)" "metrics_to_resume K = Some L"
      "L \<noteq> []" "subseq L full"
      "date_to_resume K = Some (DateString (x + 1))"
      "last_metric_date K = last_metric_date st"
      "mwork s (last_day e) cid ms fd \<subseteq> set (cells pre') \<union> mwork s (last_day e) cid L (x + 1)"
      "rows_by_cells cl pre'"
      by blast
    have cov: "cwork full s (last_day e) (cid # rest) ms fd
        \<subseteq> set (cells pre') \<union> cwork full s (last_day e) (drop 0 (cid # rest)) L (x + 1)"
      unfolding cwork_Cons drop_0 using x(9) by blast
    have i0: "0 < length (cid # rest)" by simp
    have c0: "campaigns_to_resume K = Some (drop 0 (cid # rest))" using x(3) by simp
    from i0 x(1) x(2) c0 x(4) x(5) x(6) x(7) x(8) cov x(10) show ?thesis by blast
  qed
  show ?case
  proof (cases rule: campaign_loop_cases[of cl cid rest e "PDate (midnight s)" ms full ld st])
    case (fail ev err)
    then have ev: "ev = pre @ WriteState K # post" using Cons.prems(2,3) by simp
    show ?thesis by (rule in_metrics[OF fail(1) ev])
  next
    case (continue ev ld' st1 ev' r')
    have T: "pre @ WriteState K # post = ev @ ev'"
      using continue(3) Cons.prems(2,3) by simp
    from split_in_append[OF T]
    consider (metrics) post1 where "ev = pre @ WriteState K # post1"
      | (later) pre2 where "pre = ev @ pre2" "ev' = pre2 @ WriteState K # post"
      by blast
    then show ?thesis
    proof cases
      case metrics
      show ?thesis by (rule in_metrics[OF continue(1) metrics])
    next
      case later
      from metric_loop_complete[OF Cons.prems(1) continue(1)]
      have m: "mwork s (last_day e) cid ms fd \<subseteq> set (cells ev)"
        "last_metric_date st1 = last_metric_date st"
        "ld' = (if ms = [] then ld else None)"
        by simp_all
      have ld': "ld' = None" using m(3) Cons.prems(7) by (simp split: if_splits)
      have rev: "rows_by_cells cl ev"
        using metric_loop_rows[of cl cid "cid # rest" e "PDate (midnight s)" ms full ld st]
          continue(1) by simp
      have sf: "subseq full full" by simp
      have sle: "s \<le> s" by simp
      have tr: "full = [] \<longrightarrow> (None :: datetime option) = None" by simp
      from Cons.IH[OF first_day_None continue(2)[unfolded ld'] later(2) Cons.prems(4) sf sle tr]
      obtain i x L where x: "i < length rest" "s \<le> x" "x \<le> last_day e"
        "campaigns_to_resume K = Some (drop i rest)" "metrics_to_resume K = Some L"
        "L \<noteq> []" "subseq L full"
        "date_to_resume K = Some (DateString (x + 1))"
        "last_metric_date K = last_metric_date st1"
        "cwork full s (last_day e) rest full s
           \<subseteq> set (cells pre2) \<union> cwork full s (last_day e) (drop i rest) L (x + 1)"
        "rows_by_cells cl pre2"
        by blast
      have x10: "cross rest full s (last_day e)
          \<subseteq> set (cells pre2) \<union> cwork full s (last_day e) (drop i rest) L (x + 1)"
        using x(10) by (simp add: cwork_start)
      have cp: "set (cells pre) = set (cells ev) \<union> set (cells pre2)"
        unfolding later(1) by (simp add: cells_append)
      have cov: "cwork full s (last_day e) (cid # rest) ms fd
          \<subseteq> set (cells pre) \<union> cwork full s (last_day e) (drop (Suc i) (cid # rest)) L (x + 1)"
        unfolding cwork_Cons cp drop_Suc_Cons using m(1) x10 by blast
      have rp: "rows_by_cells cl pre" unfolding later(1) using rev x(11)
        by (simp add: rows_by_cells_append)
      have lm: "last_metric_date K = last_metric_date st" using x(9) m(2) by simp
      have il: "Suc i < length (cid # rest)" using x(1) by simp
      have cs: "campaigns_to_resume K = Some (drop (Suc i) (cid # rest))" using x(4) by simp
      from il x(2) x(3) cs x(5) x(6) x(7) x(8) lm cov rp show ?thesis by blast
    qed
  qed
qed

subsection \<open>A start date that is midnight UTC of its day\<close>

text \<open>The loops use a date only through its point in time and the text of its day.\<close>

lemma date_loop_aligned:
  "instant t = instant t' \<Longrightarrow> to_date_string t = to_date_string t'
     \<Longrightarrow> date_loop cl c m cps mts e t st = date_loop cl c m cps mts e t' st"
proof (induction t st arbitrary: t' rule: date_loop_induct[of e cl c m cps mts])
  case (stop t st)
  then show ?case by (simp add: date_loop_stop)
next
  case (fail t st ev err)
  have "date_loop cl c m cps mts e t' st = (ev, Inl err)"
    using fail by (intro date_loop_fail) simp_all
  then show ?case using fail(3) by simp
next
  case (step t st ev u ev' r)
  obtain x where x: "to_date_string t = DateString x" by (cases "to_date_string t")
  have n: "to_date_string (add_days t 1) = to_date_string (add_days t' 1)"
    using next_date_string[OF x] next_date_string[of t' x] x step.prems(2) by simp
  have i: "instant (add_days t 1) = instant (add_days t' 1)"
    using step.prems(1) by (simp add: add_days_def)
  have w: "write_metrics_state st cps mts (add_days t 1)
      = write_metrics_state st cps mts (add_days t' 1)"
    using n by (simp add: write_metrics_state_def)
  have "date_loop cl c m cps mts e (add_days t' 1)
      (write_metrics_state st cps mts (add_days t' 1)) = (ev', r)"
    using step(5)[OF i n] step(3) w by simp
  then have "date_loop cl c m cps mts e t' st
      = (ev @ WriteState (write_metrics_state st cps mts (add_days t' 1)) # ev', r)"
    using step(1) step(2) step.prems by (intro date_loop_step) simp_all
  then show ?case using step(4) w by simp
qed

lemma metric_loop_aligned:
  "instant t = instant t' \<Longrightarrow> to_date_string t = to_date_string t'
     \<Longrightarrow> metric_loop cl c cps e (PDate t) ms mts ld st
         = metric_loop cl c cps e (PDate t') ms mts ld st"
proof (induction ms arbitrary: mts ld st)
  case Nil
  then show ?case by simp
next
  case (Cons m rest)
  have dw: "dates_while cl c m cps mts e (case ld of Some d \<Rightarrow> PDate d | None \<Rightarrow> PDate t) st
      = dates_while cl c m cps mts e (case ld of Some d \<Rightarrow> PDate d | None \<Rightarrow> PDate t') st"
    using date_loop_aligned[OF Cons.prems] by (cases ld) (simp_all add: dates_while_def)
  have ih: "\<And>mts ld st. metric_loop cl c cps e (PDate t) rest mts ld st
      = metric_loop cl c cps e (PDate t') rest mts ld st"
    using Cons.IH[OF Cons.prems] .
  show ?case unfolding metric_loop.simps dw ih by (rule refl)
qed

lemma campaign_loop_aligned:
  "instant t = instant t' \<Longrightarrow> to_date_string t = to_date_string t'
     \<Longrightarrow> campaign_loop cl full e (PDate t) cs cps cm ld st
         = campaign_loop cl full e (PDate t') cs cps cm ld st"
proof (induction cs arbitrary: cps cm ld st)
  case Nil
  then show ?case by simp
next
  case (Cons cid rest)
  have ih: "\<And>cps cm ld st. campaign_loop cl full e (PDate t) rest cps cm ld st
      = campaign_loop cl full e (PDate t') rest cps cm ld st"
    using Cons.IH[OF Cons.prems] .
  have ml: "\<And>c cps ms mts ld st. metric_loop cl c cps e (PDate t) ms mts ld st
      = metric_loop cl c cps e (PDate t') ms mts ld st"
    using metric_loop_aligned[OF Cons.prems] .
  show ?case unfolding campaign_loop.simps ml ih by (rule refl)
qed

subsection \<open>Runs restarted from checkpoints\<close>

lemma unparsed_start_no_events:
  "fst (campaign_loop cl full e (PStr t) cs cs (Some full) None st) = []"
proof (induction cs arbitrary: st)
  case Nil
  then show ?case by simp
next
  case (Cons cid rest)
  show ?case
  proof (cases full)
    case Nil
    then show ?thesis using Cons.IH by (simp add: case_prod_beta)
  next
    case (Cons m ms)
    then show ?thesis by (simp add: dates_while_def)
  qed
qed

lemma fresh_loops:
  "\<not> truthy (campaigns_to_resume (state c))
     \<Longrightarrow> sync_metrics_loops c campaigns
         = campaign_loop (api c) (metrics_selected_of c) (end_date_of c) (start_date_of c)
             (map campaign_id (filter (\<lambda>x. deleted x = None) campaigns))
             (map campaign_id (filter (\<lambda>x. deleted x = None) campaigns))
             (Some (metrics_selected_of c)) None (state c)"
  by (simp add: sync_metrics_loops_def resume_or_start_def)

lemma restart_keeps_config:
  "metrics_selected_of (c\<lparr>state := K\<rparr>) = metrics_selected_of c"
  "end_date_of (c\<lparr>state := K\<rparr>) = end_date_of c"
  "last_metric_date K = last_metric_date (state c)
     \<Longrightarrow> start_date_of (c\<lparr>state := K\<rparr>) = start_date_of c"
  by (simp_all add: metrics_selected_of_def end_date_of_def start_date_of_def
      configured_start_date_def cong: option.case_cong)

lemma restart_loops:
  "campaigns_to_resume K = Some cs \<Longrightarrow> cs \<noteq> [] \<Longrightarrow> metrics_to_resume K = Some L
     \<Longrightarrow> date_to_resume K = Some (DateString d)
     \<Longrightarrow> last_metric_date K = last_metric_date (state c)
     \<Longrightarrow> sync_metrics_loops (c\<lparr>state := K\<rparr>) campaigns
         = campaign_loop (api c) (metrics_selected_of c) (end_date_of c) (start_date_of c)
             cs cs (Some L) (Some (midnight d)) K"
  by (simp add: sync_metrics_loops_def resume_or_start_def restart_keeps_config midnight_def)

lemma cwork_in_cross:
  "set cs \<subseteq> set cs0 \<Longrightarrow> set L \<subseteq> set full \<Longrightarrow> s \<le> d
     \<Longrightarrow> cwork full s e cs L d \<subseteq> cross cs0 full s e"
proof (cases cs)
  case Nil
  then show ?thesis by (simp add: cwork_def)
next
  case (Cons c rest)
  assume a: "set cs \<subseteq> set cs0" "set L \<subseteq> set full" "s \<le> d"
  show ?thesis unfolding Cons cwork_Cons
  proof (cases L)
    case Nil
    then show "mwork s e c L d \<union> cross rest full s e \<subseteq> cross cs0 full s e"
      using a Cons by (auto simp: mwork_def cross_def)
  next
    case (Cons m ms)
    then show "mwork s e c L d \<union> cross rest full s e \<subseteq> cross cs0 full s e"
      using a \<open>cs = c # rest\<close> by (auto simp: mwork_def cross_def)
  qed
qed

text \<open>A run that wrote a checkpoint started from a parsed date: the configured one.\<close>

lemma reach_parsed_start:
  assumes "\<not> truthy (campaigns_to_resume (state c))"
      and "reach c campaigns P K"
  shows "start_date_of c = PDate (configured_start_date c)"
  using assms(2)
proof (induction rule: reach.induct)
  case (first pre K post)
  show ?case
  proof (cases "last_metric_date (state c)")
    case None
    then show ?thesis by (simp add: start_date_of_def)
  next
    case (Some t)
    then have "start_date_of c = PStr t" by (simp add: start_date_of_def)
    then have "fst (sync_metrics c campaigns) = []"
      using fresh_loops[OF assms(1), of campaigns]
        unparsed_start_no_events[of "api c" "metrics_selected_of c" "end_date_of c" t
          "map campaign_id (filter (\<lambda>x. deleted x = None) campaigns)" "state c"]
      by (simp add: sync_metrics_trace)
    then show ?thesis using first by simp
  qed
next
  case (again P K campaigns' pre K' post)
  then show ?case by simp
qed

lemma reach_invariant:
  assumes fresh: "\<not> truthy (campaigns_to_resume (state c))"
      and dist: "distinct (metrics_selected_of c)"
      and start: "start_date_of c = PDate t0" "instant t0 = instant (midnight s)"
        "to_date_string t0 = DateString s"
      and reach: "reach c campaigns P K"
  shows "\<exists>i x L.
           i < length (map campaign_id (filter (\<lambda>x. deleted x = None) campaigns))
           \<and> s \<le> x \<and> x \<le> last_day (end_date_of c)
           \<and> campaigns_to_resume K
               = Some (drop i (map campaign_id (filter (\<lambda>x. deleted x = None) campaigns)))
           \<and> metrics_to_resume K = Some L \<and> L \<noteq> [] \<and> subseq L (metrics_selected_of c)
           \<and> date_to_resume K = Some (DateString (x + 1))
           \<and> last_metric_date K = last_metric_date (state c)
           \<and> cross (map campaign_id (filter (\<lambda>x. deleted x = None) campaigns))
                 (metrics_selected_of c) s (last_day (end_date_of c))
               \<subseteq> set (cells P)
                 \<union> cwork (metrics_selected_of c) s (last_day (end_date_of c))
                     (drop i (map campaign_id (filter (\<lambda>x. deleted x = None) campaigns))) L (x + 1)
           \<and> rows_by_cells (api c) P"
  using reach
proof (induction rule: reach.induct)
  case (first pre K post)
  define ids where "ids = map campaign_id (filter (\<lambda>x. deleted x = None) campaigns)"
  define full where "full = metrics_selected_of c"
  define e where "e = end_date_of c"
  have al: "campaign_loop (api c) full e (PDate t0) cs cps cm ld st
      = campaign_loop (api c) full e (PDate (midnight s)) cs cps cm ld st" for cs cps cm ld st
    by (rule campaign_loop_aligned) (simp_all add: start midnight_string)
  obtain T r where run: "campaign_loop (api c) full e (PDate (midnight s)) ids ids (Some full) None
      (state c) = (T, r)"
    by (cases "campaign_loop (api c) full e (PDate (midnight s)) ids ids (Some full) None (state c)")
  have T: "T = pre @ WriteState K # post"
    using first fresh_loops[OF fresh, of campaigns] run start(1) al
    by (simp add: sync_metrics_trace ids_def full_def e_def)
  have sf: "subseq full full" by simp
  have sle: "s \<le> s" by simp
  have tr: "full = [] \<longrightarrow> (None :: datetime option) = None" by simp
  from campaign_loop_split[OF first_day_None run T dist[unfolded full_def[symmetric]] sf sle tr]
  obtain i x L where x: "i < length ids" "s \<le> x" "x \<le> last_day e"
    "campaigns_to_resume K = Some (drop i ids)" "metrics_to_resume K = Some L"
    "L \<noteq> []" "subseq L full"
    "date_to_resume K = Some (DateString (x + 1))"
    "last_metric_date K = last_metric_date (state c)"
    "cwork full s (last_day e) ids full s
       \<subseteq> set (cells pre) \<union> cwork full s (last_day e) (drop i ids) L (x + 1)"
    "rows_by_cells (api c) pre"
    by blast
  have cov: "cross ids full s (last_day e)
      \<subseteq> set (cells pre) \<union> cwork full s (last_day e) (drop i ids) L (x + 1)"
    using x(10) by (simp add: cwork_start)
  from x(1) x(2) x(3) x(4) x(5) x(6) x(7) x(8) x(9) cov x(11)
  show ?case unfolding ids_def full_def e_def by blast
next
  case (again P K campaigns' pre K' post)
  define ids where "ids = map campaign_id (filter (\<lambda>x. deleted x = None) campaigns)"
  define full where "full = metrics_selected_of c"
  define e where "e = end_date_of c"
  have al: "campaign_loop (api c) full e (PDate t0) cs cps cm ld st
      = campaign_loop (api c) full e (PDate (midnight s)) cs cps cm ld st" for cs cps cm ld st
    by (rule campaign_loop_aligned) (simp_all add: start midnight_string)
  from again.IH
  obtain i x L where k: "i < length ids" "s \<le> x" "x \<le> last_day e"
    "campaigns_to_resume K = Some (drop i ids)" "metrics_to_resume K = Some L"
    "L \<noteq> []" "subseq L full"
    "date_to_resume K = Some (DateString (x + 1))"
    "last_metric_date K = last_metric_date (state c)"
    "cross ids full s (last_day e)
       \<subseteq> set (cells P) \<union> cwork full s (last_day e) (drop i ids) L (x + 1)"
    "rows_by_cells (api c) P"
    unfolding ids_def full_def e_def by blast
  have ne: "drop i ids \<noteq> []" using k(1) by simp
  obtain T r where run: "campaign_loop (api c) full e (PDate (midnight s)) (drop i ids) (drop i ids)
      (Some L) (Some (midnight (x + 1))) K = (T, r)"
    by (cases "campaign_loop (api c) full e (PDate (midnight s)) (drop i ids) (drop i ids) (Some L)
      (Some (midnight (x + 1))) K")
  have T: "T = pre @ WriteState K' # post"
    using again(2) restart_loops[OF k(4) ne k(5) k(8) k(9), of campaigns'] run start(1) al
    by (simp add: sync_metrics_trace full_def e_def)
  have sle: "s \<le> x + 1" using k(2) by simp
  have tr: "L = [] \<longrightarrow> Some (midnight (x + 1)) = None" using k(6) by simp
  from campaign_loop_split[OF first_day_Some run T dist[unfolded full_def[symmetric]] k(7) sle tr]
  obtain i' x' L' where x: "i' < length (drop i ids)" "s \<le> x'" "x' \<le> last_day e"
    "campaigns_to_resume K' = Some (drop i' (drop i ids))" "metrics_to_resume K' = Some L'"
    "L' \<noteq> []" "subseq L' full"
    "date_to_resume K' = Some (DateString (x' + 1))"
    "last_metric_date K' = last_metric_date K"
    "cwork full s (last_day e) (drop i ids) L (x + 1)
       \<subseteq> set (cells pre) \<union> cwork full s (last_day e) (drop i' (drop i ids)) L' (x' + 1)"
    "rows_by_cells (api c) pre"
    by blast
  have dd: "drop i' (drop i ids) = drop (i' + i) ids" by simp
  have il: "i' + i < length ids" using x(1) by simp
  have x10: "cwork full s (last_day e) (drop i ids) L (x + 1)
       \<subseteq> set (cells pre) \<union> cwork full s (last_day e) (drop (i' + i) ids) L' (x' + 1)"
    using x(10) unfolding dd by simp
  have cp: "set (cells (P @ pre)) = set (cells P) \<union> set (cells pre)" by (simp add: cells_append)
  have cov: "cross ids full s (last_day e)
      \<subseteq> set (cells (P @ pre)) \<union> cwork full s (last_day e) (drop (i' + i) ids) L' (x' + 1)"
    unfolding cp using k(10) x10 by blast
  have rp: "rows_by_cells (api c) (P @ pre)" using k(11) x(11) by (rule rows_by_cells_append)
  have lm: "last_metric_date K' = last_metric_date (state c)" using x(9) k(9) by simp
  have cs: "campaigns_to_resume K' = Some (drop (i' + i) ids)" using x(4) dd by simp
  from il x(2) x(3) cs x(5) x(6) x(7) x(8) lm cov rp
  show ?case unfolding ids_def full_def e_def by blast
qed

lemma rows_subset:
  "rows_by_cells cl A \<Longrightarrow> rows_by_cells cl B \<Longrightarrow> set (cells A) \<subseteq> set (cells B)
     \<Longrightarrow> set (metric_rows A) \<subseteq> set (metric_rows B)"
  unfolding rows_by_cells_def by blast

lemma rows_subset_Un:
  "rows_by_cells cl A \<Longrightarrow> rows_by_cells cl B \<Longrightarrow> rows_by_cells cl C
     \<Longrightarrow> set (cells A) \<subseteq> set (cells B) \<union> set (cells C)
     \<Longrightarrow> set (metric_rows A) \<subseteq> set (metric_rows B) \<union> set (metric_rows C)"
  unfolding rows_by_cells_def by blast

text \<open>
  C2, as the code has it. A checkpoint stores the day of the next date and a restart parses
  it to midnight UTC of that day, so the claim holds when the start date is such a
  midnight. Let a run of \<^verbatim>\<open>sync_metrics\<close> start fresh (no campaigns to resume) with
  distinct selected metrics and a configured start date that is midnight UTC of its day
  (parsing the text of its day gives the same point in time), and let its loops complete
  when it is not interrupted. Take any checkpoint \<open>K\<close> written by that run or by a run
  restarted from a checkpoint written before, any number of times, with \<open>P\<close> the events
  that came before the checkpoints of those runs. Then the run restarted from \<open>K\<close>
  completes its loops, every cell and every metric record of the uninterrupted run is in
  \<open>P\<close> or in the restarted run (no cell is skipped), and the restarted run processes
  only cells, and writes only records, of the uninterrupted run (it may repeat some of
  \<open>P\<close>). The API is a function of the request, so a cell gives the same records each
  time it is processed, and the restarted run has the configuration of the first run.
\<close>

theorem restart_no_gaps:
  assumes "\<not> truthy (campaigns_to_resume (state c))"
      and "distinct (metrics_selected_of c)"
      and "instant (configured_start_date c)
             = instant (pendulum_parse (to_date_string (configured_start_date c)))"
      and "snd (sync_metrics_loops c campaigns) = Inr st_end"
      and "reach c campaigns P K"
  shows "(\<exists>st'. snd (sync_metrics_loops (c\<lparr>state := K\<rparr>) campaigns') = Inr st')
       \<and> set (cells (fst (sync_metrics c campaigns)))
           \<subseteq> set (cells P) \<union> set (cells (fst (sync_metrics (c\<lparr>state := K\<rparr>) campaigns')))
       \<and> set (cells (fst (sync_metrics (c\<lparr>state := K\<rparr>) campaigns')))
           \<subseteq> set (cells (fst (sync_metrics c campaigns)))
       \<and> set (metric_rows (fst (sync_metrics c campaigns)))
           \<subseteq> set (metric_rows P)
             \<union> set (metric_rows (fst (sync_metrics (c\<lparr>state := K\<rparr>) campaigns')))
       \<and> set (metric_rows (fst (sync_metrics (c\<lparr>state := K\<rparr>) campaigns')))
           \<subseteq> set (metric_rows (fst (sync_metrics c campaigns)))"
proof -
  define ids where "ids = map campaign_id (filter (\<lambda>x. deleted x = None) campaigns)"
  define full where "full = metrics_selected_of c"
  define e where "e = end_date_of c"
  define cl where "cl = api c"
  define t0 where "t0 = configured_start_date c"
  obtain s where s: "to_date_string t0 = DateString s" by (cases "to_date_string t0")
  have i0: "instant t0 = instant (midnight s)"
    using assms(3) s by (simp add: t0_def midnight_def)
  have st: "start_date_of c = PDate t0"
    using reach_parsed_start[OF assms(1) assms(5)] by (simp add: t0_def)
  have al: "campaign_loop cl full e (PDate t0) cs cps cm ld st
      = campaign_loop cl full e (PDate (midnight s)) cs cps cm ld st" for cs cps cm ld st
    by (rule campaign_loop_aligned) (simp_all add: i0 s midnight_string)
  from reach_invariant[OF assms(1) assms(2) st i0 s assms(5)]
  obtain i x L where k: "i < length ids" "s \<le> x" "x \<le> last_day e"
    "campaigns_to_resume K = Some (drop i ids)" "metrics_to_resume K = Some L"
    "L \<noteq> []" "subseq L full"
    "date_to_resume K = Some (DateString (x + 1))"
    "last_metric_date K = last_metric_date (state c)"
    "cross ids full s (last_day e)
       \<subseteq> set (cells P) \<union> cwork full s (last_day e) (drop i ids) L (x + 1)"
    "rows_by_cells cl P"
    unfolding ids_def full_def e_def cl_def by blast
  have dist: "distinct full" using assms(2) by (simp add: full_def)
  text \<open>The uninterrupted run.\<close>
  obtain T0 where run0:
    "campaign_loop cl full e (PDate (midnight s)) ids ids (Some full) None (state c)
      = (T0, Inr st_end)"
    using assms(4) fresh_loops[OF assms(1), of campaigns] st al
    by (cases "campaign_loop cl full e (PDate (midnight s)) ids ids (Some full) None (state c)")
       (simp add: ids_def full_def e_def cl_def)
  have t0: "fst (sync_metrics c campaigns) = T0"
    using run0 fresh_loops[OF assms(1), of campaigns] st al
    by (simp add: sync_metrics_trace ids_def full_def e_def cl_def)
  have tr: "full = [] \<longrightarrow> (None :: datetime option) = None" by simp
  from campaign_loop_complete[OF first_day_None tr run0]
  have u1: "cross ids full s (last_day e) \<subseteq> set (cells T0)"
    and ok: "cells_ok cl (cross ids full s (last_day e))"
    by (simp_all add: cwork_start)
  have u2: "set (cells T0) \<subseteq> cross ids full s (last_day e)"
    using campaign_loop_cells[of s None s full cl full e ids "state c", OF first_day_None tr] run0
    by (simp add: cwork_start)
  have r0: "rows_by_cells cl T0"
    using campaign_loop_rows[of cl full e "PDate (midnight s)" ids full None "state c"] run0
    by simp
  text \<open>The run restarted from \<open>K\<close>.\<close>
  have ne: "drop i ids \<noteq> []" using k(1) by simp
  have sx: "s \<le> x + 1" using k(2) by simp
  have sub: "cwork full s (last_day e) (drop i ids) L (x + 1) \<subseteq> cross ids full s (last_day e)"
    using sx subseq_subset[OF k(7)] set_drop_subset[of i ids]
    by (intro cwork_in_cross) simp_all
  have okk: "cells_ok cl (cwork full s (last_day e) (drop i ids) L (x + 1))"
    by (rule cells_ok_mono[OF ok sub])
  have trk: "L = [] \<longrightarrow> Some (midnight (x + 1)) = None" using k(6) by simp
  from campaign_loop_runs[OF first_day_Some okk dist k(7) trk, of K]
  obtain TR st' where runk:
    "campaign_loop cl full e (PDate (midnight s)) (drop i ids) (drop i ids) (Some L)
      (Some (midnight (x + 1))) K = (TR, Inr st')"
    by blast
  have loopsk: "sync_metrics_loops (c\<lparr>state := K\<rparr>) campaigns' = (TR, Inr st')"
    using restart_loops[OF k(4) ne k(5) k(8) k(9), of campaigns'] runk st al
    by (simp add: full_def e_def cl_def)
  have tk: "fst (sync_metrics (c\<lparr>state := K\<rparr>) campaigns') = TR"
    using loopsk by (simp add: sync_metrics_trace)
  from campaign_loop_complete[OF first_day_Some trk runk]
  have k1: "cwork full s (last_day e) (drop i ids) L (x + 1) \<subseteq> set (cells TR)" by simp
  have k2: "set (cells TR) \<subseteq> cwork full s (last_day e) (drop i ids) L (x + 1)"
    using campaign_loop_cells[of s "Some (midnight (x + 1))" "x + 1" L cl full e "drop i ids" K,
        OF first_day_Some trk] runk
    by simp
  have rk: "rows_by_cells cl TR"
    using campaign_loop_rows[of cl full e "PDate (midnight s)" "drop i ids" L
        "Some (midnight (x + 1))" K] runk
    by simp
  text \<open>No cell is skipped, and none is new.\<close>
  have a: "set (cells T0) \<subseteq> set (cells P) \<union> set (cells TR)" using u2 k(10) k1 by blast
  have b: "set (cells TR) \<subseteq> set (cells T0)" using k2 sub u1 by blast
  have ra: "set (metric_rows T0) \<subseteq> set (metric_rows P) \<union> set (metric_rows TR)"
    by (rule rows_subset_Un[OF r0 k(11) rk a])
  have rb: "set (metric_rows TR) \<subseteq> set (metric_rows T0)"
    by (rule rows_subset[OF rk r0 b])
  have fin: "\<exists>st'. snd (sync_metrics_loops (c\<lparr>state := K\<rparr>) campaigns') = Inr st'"
    using loopsk by simp
  show ?thesis unfolding t0 tk using fin a b ra rb by blast
qed

theorem restart_no_gaps_witness:
  "set (cells (fst (sync_metrics fresh_ctx [campaign_1, campaign_2])))
     \<subseteq> set (cells before_first_checkpoint)
       \<union> set (cells (fst (sync_metrics (fresh_ctx\<lparr>state := first_checkpoint\<rparr>) [])))
   \<and> set (cells (fst (sync_metrics (fresh_ctx\<lparr>state := first_checkpoint\<rparr>) [])))
     \<subseteq> set (cells (fst (sync_metrics fresh_ctx [campaign_1, campaign_2])))
   \<and> cells (fst (sync_metrics (fresh_ctx\<lparr>state := first_checkpoint\<rparr>) []))
     = [(''1'', ''open'', DateString day_2021_03_02),
        (''1'', ''click'', DateString day_2021_03_01),
        (''1'', ''click'', DateString day_2021_03_02)]
   \<and> set (cells (fst (sync_metrics fresh_ctx [campaign_1, campaign_2])))
     \<subseteq> set (cells (before_third_checkpoint @ before_restarted_checkpoint))
       \<union> set (cells (fst (sync_metrics (fresh_ctx\<lparr>state := restarted_checkpoint\<rparr>) [])))
   \<and> set (metric_rows (fst (sync_metrics fresh_ctx [campaign_1, campaign_2])))
     \<subseteq> set (metric_rows (before_third_checkpoint @ before_restarted_checkpoint))
       \<union> set (metric_rows (fst (sync_metrics (fresh_ctx\<lparr>state := restarted_checkpoint\<rparr>) [])))
   \<and> cells (fst (sync_metrics (fresh_ctx\<lparr>state := restarted_checkpoint\<rparr>) []))
     = [(''1'', ''click'', DateString day_2021_03_01),
        (''1'', ''click'', DateString day_2021_03_02)]"
proof -
  have h1: "\<not> truthy (campaigns_to_resume (state fresh_ctx))" by (simp add: example_defs)
  have h2: "distinct (metrics_selected_of fresh_ctx)"
    by (simp add: example_defs metrics_selected_of_def)
  have h0: "instant (configured_start_date fresh_ctx)
             = instant (pendulum_parse (to_date_string (configured_start_date fresh_ctx)))"
    by (simp add: example_defs configured_start_date_def to_date_string_def day_length_def)
  obtain st_end where h3: "snd (sync_metrics_loops fresh_ctx [campaign_1, campaign_2]) = Inr st_end"
    by (simp add: example_defs run_defs)
  have "fst (sync_metrics fresh_ctx [campaign_1, campaign_2])
      = before_first_checkpoint @ WriteState first_checkpoint
          # drop 4 (fst (sync_metrics fresh_ctx [campaign_1, campaign_2]))"
    by (simp add: example_defs run_defs before_first_checkpoint_def first_checkpoint_def)
  then have h4: "reach fresh_ctx [campaign_1, campaign_2] before_first_checkpoint first_checkpoint"
    by (rule reach.first)
  note t = restart_no_gaps[OF h1 h2 h0 h3 h4, of "[]"]
  have v: "cells (fst (sync_metrics (fresh_ctx\<lparr>state := first_checkpoint\<rparr>) []))
     = [(''1'', ''open'', DateString day_2021_03_02),
        (''1'', ''click'', DateString day_2021_03_01),
        (''1'', ''click'', DateString day_2021_03_02)]"
    by (simp add: example_defs run_defs first_checkpoint_def)
  have "fst (sync_metrics fresh_ctx [campaign_1, campaign_2])
      = before_third_checkpoint @ WriteState third_checkpoint
          # drop 12 (fst (sync_metrics fresh_ctx [campaign_1, campaign_2]))"
    by (simp add: example_defs run_defs before_third_checkpoint_def first_checkpoint_def
        third_checkpoint_def)
  then have h5: "reach fresh_ctx [campaign_1, campaign_2] before_third_checkpoint third_checkpoint"
    by (rule reach.first)
  have "fst (sync_metrics (fresh_ctx\<lparr>state := third_checkpoint\<rparr>) [campaign_2])
      = before_restarted_checkpoint @ WriteState restarted_checkpoint # []"
    by (simp add: example_defs run_defs before_restarted_checkpoint_def third_checkpoint_def
        restarted_checkpoint_def)
  with h5 have h6: "reach fresh_ctx [campaign_1, campaign_2]
      (before_third_checkpoint @ before_restarted_checkpoint) restarted_checkpoint"
    by (rule reach.again)
  note t2 = restart_no_gaps[OF h1 h2 h0 h3 h6, of "[]"]
  have v2: "cells (fst (sync_metrics (fresh_ctx\<lparr>state := restarted_checkpoint\<rparr>) []))
     = [(''1'', ''click'', DateString day_2021_03_01),
        (''1'', ''click'', DateString day_2021_03_02)]"
    by (simp add: example_defs run_defs restarted_checkpoint_def)
  from t t2 v v2 show ?thesis by blast
qed

text \<open>
  The claim itself fails when the start date is not such a midnight. With the start date
  \<^verbatim>\<open>2021-03-01T12:00:00Z\<close> and the end date \<^verbatim>\<open>2021-03-02T00:00:00Z\<close> the
  uninterrupted run stops each metric after 2021-03-01, and the run restarted from its
  first checkpoint processes the cell of 2021-03-02 and writes a record the uninterrupted
  run never writes. With the start date \<^verbatim>\<open>2021-03-01T00:00:00+02:00\<close> and the end
  date \<^verbatim>\<open>2021-03-02T23:00:00Z\<close> the uninterrupted run processes metric open for
  2021-03-03, and the run restarted from the checkpoint written after 2021-03-02 skips that
  cell. Each of these runs goes through all its loops and ends at line 242.
\<close>

theorem restart_same_records_counterexample:
  "take 4 (fst (sync_metrics noon_ctx [campaign_1]))
     = before_first_checkpoint @ [WriteState first_checkpoint]
   \<and> snd (sync_metrics_loops noon_ctx [campaign_1])
     = Inr (first_checkpoint\<lparr>metrics_to_resume := Some [''click'']\<rparr>)
   \<and> cells (fst (sync_metrics noon_ctx [campaign_1]))
     = [(''1'', ''open'', DateString day_2021_03_01), (''1'', ''click'', DateString day_2021_03_01)]
   \<and> cells (fst (sync_metrics (noon_ctx\<lparr>state := first_checkpoint\<rparr>) [campaign_1]))
     = [(''1'', ''open'', DateString day_2021_03_02), (''1'', ''click'', DateString day_2021_03_01)]
   \<and> snd (sync_metrics (noon_ctx\<lparr>state := first_checkpoint\<rparr>) [campaign_1])
     = Inl (NameError ''reset_stream'')
   \<and> MetricRow (DateString day_2021_03_02) ''open'' ''17''
       \<in> set (metric_rows (fst (sync_metrics (noon_ctx\<lparr>state := first_checkpoint\<rparr>) [campaign_1])))
   \<and> MetricRow (DateString day_2021_03_02) ''open'' ''17''
       \<notin> set (metric_rows (fst (sync_metrics noon_ctx [campaign_1])))
   \<and> take 8 (fst (sync_metrics east_ctx [campaign_1]))
     = before_second_checkpoint @ [WriteState second_checkpoint]
   \<and> snd (sync_metrics east_ctx [campaign_1]) = Inl (NameError ''reset_stream'')
   \<and> snd (sync_metrics (east_ctx\<lparr>state := second_checkpoint\<rparr>) [campaign_1])
     = Inl (NameError ''reset_stream'')
   \<and> (''1'', ''open'', DateString day_2021_03_03)
       \<in> set (cells (fst (sync_metrics east_ctx [campaign_1])))
   \<and> (''1'', ''open'', DateString day_2021_03_03)
       \<notin> set (cells before_second_checkpoint)
           \<union> set (cells (fst (sync_metrics (east_ctx\<lparr>state := second_checkpoint\<rparr>) [campaign_1])))
   \<and> MetricRow (DateString day_2021_03_03) ''open'' ''17''
       \<in> set (metric_rows (fst (sync_metrics east_ctx [campaign_1])))
   \<and> MetricRow (DateString day_2021_03_03) ''open'' ''17''
       \<notin> set (metric_rows before_second_checkpoint)
           \<union> set (metric_rows
                 (fst (sync_metrics (east_ctx\<lparr>state := second_checkpoint\<rparr>) [campaign_1])))"
  by (simp add: noon_ctx_def east_ctx_def example_defs run_defs before_first_checkpoint_def
      first_checkpoint_def before_second_checkpoint_def second_checkpoint_def metric_rows_def)


end
